theory Spec2Isabelle
  imports Complex_Main "HOL-Library.AList" "HOL-Library.Sublist"
begin

section \<open>Parsed JSON documents\<close>

text \<open>
  The manifests are handled in the form \<^verbatim>\<open>json.load\<close> returns them: untyped nested
  values. A Python dict keeps its insertion order and assigning to an existing key keeps
  the key's position, so an object is an association list, read with \<^const>\<open>map_of\<close> and
  written with \<^const>\<open>AList.update\<close>. Strings are byte strings; the tests the code makes
  on them (a prefix, a suffix, the occurrence of the ASCII character \<^verbatim>\<open>/\<close>) give the
  same answer on the UTF-8 bytes as on the code points.
\<close>

datatype json =
    JNull
  | JBool bool
  | JInt int
  | JFloat rat
  | JStr string
  | JArr "json list"
  | JObj "(string \<times> json) list"

type_synonym jdict = "(string \<times> json) list"

text \<open>\<^verbatim>\<open>str.startswith\<close> and \<^verbatim>\<open>str.endswith\<close>.\<close>

definition startswith :: "string \<Rightarrow> string \<Rightarrow> bool" where
  "startswith s p = prefix p s"

definition endswith :: "string \<Rightarrow> string \<Rightarrow> bool" where
  "endswith s p = suffix p s"

section \<open>The tree walk shared by both repair passes\<close>

text \<open>
  Both passes define the same local function \<^verbatim>\<open>walk\<close>, closed over their own fixer
  (\<^verbatim>\<open>maybe_fix_uri\<close> in Pass A, \<^verbatim>\<open>maybe_fix\<close> in Pass B). The fixer mutates a reference
  object in place and sets a \<^verbatim>\<open>nonlocal\<close> flag; here it returns the new object and
  whether it set the flag. The node dict itself is never assigned to, so all three lookups
  read the node as it was.
\<close>

type_synonym fixer = "json \<Rightarrow> json \<times> bool"

text \<open>\<^verbatim>\<open>for x in xs: if isinstance(x, dict): f(x)\<close>\<close>

definition each_dict :: "fixer \<Rightarrow> json list \<Rightarrow> json list \<times> bool" where
  "each_dict f xs =
     (let rs = map (\<lambda>x. case x of JObj _ \<Rightarrow> f x | _ \<Rightarrow> (x, False)) xs
      in (map fst rs, list_ex snd rs))"

lemma each_dict_cong [fundef_cong]:
  assumes "xs = ys" and "\<And>x. x \<in> set ys \<Longrightarrow> f x = g x"
  shows "each_dict f xs = each_dict g ys"
proof -
  have eq: "map (\<lambda>x. case x of JObj _ \<Rightarrow> f x | _ \<Rightarrow> (x, False)) ys
      = map (\<lambda>x. case x of JObj _ \<Rightarrow> g x | _ \<Rightarrow> (x, False)) ys"
    using assms(2) by (intro map_cong refl) (auto split: json.splits)
  show ?thesis
    unfolding each_dict_def Let_def assms(1) eq by (rule refl)
qed

definition fix_content :: "fixer \<Rightarrow> jdict \<Rightarrow> jdict \<times> bool" where
  "fix_content mf kvs =
     (case map_of kvs ''content'' of
        Some (JObj c) \<Rightarrow>
          (let (c', m) = mf (JObj c) in (AList.update ''content'' c' kvs, m))
      | _ \<Rightarrow> (kvs, False))"

definition fix_contents :: "fixer \<Rightarrow> jdict \<Rightarrow> jdict \<Rightarrow> jdict \<times> bool" where
  "fix_contents mf kvs acc =
     (case map_of kvs ''contents'' of
        Some (JArr cs) \<Rightarrow>
          (let (cs', m) = each_dict mf cs in (AList.update ''contents'' (JArr cs') acc, m))
      | _ \<Rightarrow> (acc, False))"

lemma size_map_of_lt:
  "map_of kvs k = Some v \<Longrightarrow> size v < size (JObj kvs)"
  by (induction kvs) (auto split: if_splits)

lemma size_arr_elem_lt:
  "c \<in> set cs \<Longrightarrow> size c < size (JArr cs)"
  by (induction cs) auto

function (sequential) walk :: "fixer \<Rightarrow> json \<Rightarrow> json \<times> bool" where
  "walk mf (JObj kvs) =
     (let (kvs1, m1) = fix_content mf kvs;
          (kvs2, m2) = fix_contents mf kvs kvs1;
          (kvs3, m3) =
            (case map_of kvs ''children'' of
               Some (JArr ns) \<Rightarrow>
                 (let (ns', m) = each_dict (walk mf) ns
                  in (AList.update ''children'' (JArr ns') kvs2, m))
             | _ \<Rightarrow> (kvs2, False))
      in (JObj kvs3, m1 \<or> m2 \<or> m3))"
| "walk mf node = (node, False)"
  by pat_completeness auto
termination
  apply (relation "measure (\<lambda>(mf, n). size n)")
   apply simp
  apply (auto dest!: size_map_of_lt size_arr_elem_lt)
  done

text \<open>
  \<^verbatim>\<open>walk(data.get("root", {}))\<close>: \<^verbatim>\<open>data.get\<close> raises AttributeError when the document is
  not an object (the result \<open>None\<close>); a missing \<^verbatim>\<open>root\<close> walks the empty dict.
\<close>

definition walk_root :: "fixer \<Rightarrow> json \<Rightarrow> (json \<times> bool) option" where
  "walk_root mf data =
     (case data of
        JObj kvs \<Rightarrow>
          (case map_of kvs ''root'' of
             None \<Rightarrow> Some (data, False)
           | Some r \<Rightarrow> (let (r', m) = walk mf r in Some (JObj (AList.update ''root'' r' kvs), m)))
      | _ \<Rightarrow> None)"

section \<open>The output directory\<close>

text \<open>
  A file is readable or not, writable or not, and holds a document that \<^verbatim>\<open>json.load\<close>
  accepts (\<open>Some\<close>) or rejects (\<open>None\<close>); a document nested too deeply for the decoder is
  one it rejects, so every document that loads can be walked within Python's recursion
  limit. Opening a directory, or a file without the permission, raises; a refused write
  leaves the file as it was (a write that fails half way is not modelled).

  \<open>points\<close> is the listing of the \<^verbatim>\<open>points/\<close> subdirectory, \<open>None\<close> when it is missing or
  not a directory. \<open>deep_file q\<close> tells whether the path \<open>q\<close> is a regular file, where
  \<open>q\<close> is either absolute or relative to the output directory; it is asked for the paths
  that have a separator after \<^verbatim>\<open>points/\<close>, and for those that lead out of it.
  \<open>points_stat_error\<close> holds when \<^verbatim>\<open>stat\<close> on \<^verbatim>\<open>points/\<close> fails with an error
  \<^verbatim>\<open>Path.exists\<close> re-raises.
\<close>

datatype node = Dir | File (readable: bool) (writable: bool) (body: "json option")

record tiles_dir =
  main_tileset :: "node option"
  points :: "(string \<times> node) list option"
  deep_file :: "string \<Rightarrow> bool"
  points_stat_error :: bool
  tiles_log :: "string option"

datatype error = OSError | RuntimeError string | UnicodeDecodeError

fun read_json :: "node option \<Rightarrow> json option" where
  "read_json (Some (File True w (Some d))) = Some d"
| "read_json _ = None"

fun write_json :: "node option \<Rightarrow> json \<Rightarrow> node option" where
  "write_json (Some (File r True b)) d = Some (File r True (Some d))"
| "write_json _ d = None"

fun is_file :: "node option \<Rightarrow> bool" where
  "is_file (Some (File r w b)) = True"
| "is_file _ = False"

text \<open>
  \<^verbatim>\<open>points_dir / p\<close>, written relative to the output directory: \<^verbatim>\<open>pathlib\<close> drops
  everything before an absolute right operand, so an absolute \<open>p\<close> is the result itself.
  (The collapsing of doubled separators and of \<^verbatim>\<open>.\<close> components is left to the file
  system.)
\<close>

definition points_join :: "string \<Rightarrow> string" where
  "points_join p = (if startswith p ''/'' then p else ''points/'' @ p)"

text \<open>\<^verbatim>\<open>candidate.exists() and candidate.is_file()\<close> for \<^verbatim>\<open>candidate = points_dir / p\<close>,
  an exception counting as no.\<close>

definition points_is_file :: "tiles_dir \<Rightarrow> string \<Rightarrow> bool" where
  "points_is_file fs p =
     (\<not> points_stat_error fs \<and>
      (case points fs of
         None \<Rightarrow> False
       | Some es \<Rightarrow> if CHR ''/'' \<in> set p then deep_file fs (points_join p)
                   else is_file (map_of es p)))"

section \<open>Pass A: rewrite\_child\_tileset\_uris\_if\_needed\<close>

definition maybe_fix_uri :: "(string \<Rightarrow> bool) \<Rightarrow> fixer" where
  "maybe_fix_uri isf obj =
     (case obj of
        JObj kvs \<Rightarrow>
          (case map_of kvs ''uri'' of
             Some (JStr uri_val) \<Rightarrow>
               if startswith uri_val ''tileset.'' \<and> endswith uri_val ''.json''
                  \<and> CHR ''/'' \<notin> set uri_val
               then (if isf uri_val
                     then (JObj (AList.update ''uri'' (JStr (''points/'' @ uri_val)) kvs), True)
                     else (obj, False))
               else (obj, False)
           | _ \<Rightarrow> (obj, False))
      | _ \<Rightarrow> (obj, False))"

definition rewrite_child_tileset_uris_if_needed :: "tiles_dir \<Rightarrow> bool \<times> tiles_dir" where
  "rewrite_child_tileset_uris_if_needed fs =
     (case main_tileset fs of
        None \<Rightarrow> (False, fs)
      | Some n \<Rightarrow>
          (case read_json (Some n) of
             None \<Rightarrow> (False, fs)
           | Some data \<Rightarrow>
               (case walk_root (maybe_fix_uri (points_is_file fs)) data of
                  None \<Rightarrow> (False, fs)
                | Some (data', modified) \<Rightarrow>
                    if modified
                    then (case write_json (Some n) data' of
                            None \<Rightarrow> (False, fs)
                          | Some n' \<Rightarrow> (True, fs\<lparr>main_tileset := Some n'\<rparr>))
                    else (False, fs))))"

section \<open>Pass B: normalize\_sub\_tileset\_uris\_in\_points\<close>

definition maybe_fix :: "(string \<Rightarrow> bool) \<Rightarrow> fixer" where
  "maybe_fix isf obj =
     (case obj of
        JObj kvs \<Rightarrow>
          (case map_of kvs ''uri'' of
             Some (JStr uri_val) \<Rightarrow>
               if startswith uri_val ''points/''
               then (let trimmed = drop (length ''points/'') uri_val
                     in if isf trimmed
                        then (JObj (AList.update ''uri'' (JStr trimmed) kvs), True)
                        else (obj, False))
               else (obj, False)
           | _ \<Rightarrow> (obj, False))
      | _ \<Rightarrow> (obj, False))"

definition fix_uris_in_data :: "(string \<Rightarrow> bool) \<Rightarrow> json \<Rightarrow> json \<times> bool" where
  "fix_uris_in_data isf data =
     (case walk_root (maybe_fix isf) data of
        None \<Rightarrow> (data, False)
      | Some r \<Rightarrow> r)"

text \<open>
  \<^verbatim>\<open>points_dir.glob("tileset.*.json")\<close> yields the entries directly under \<^verbatim>\<open>points/\<close>
  whose name is \<^verbatim>\<open>tileset.\<close>, then any characters, then \<^verbatim>\<open>.json\<close>.
\<close>

definition glob_match :: "string \<Rightarrow> bool" where
  "glob_match name =
     (startswith name ''tileset.'' \<and> endswith (drop (length ''tileset.'') name) ''.json'')"

definition write_points_json :: "tiles_dir \<Rightarrow> string \<Rightarrow> json \<Rightarrow> tiles_dir option" where
  "write_points_json fs name d =
     (case points fs of
        None \<Rightarrow> None
      | Some es \<Rightarrow>
          (case write_json (map_of es name) d of
             None \<Rightarrow> None
           | Some n' \<Rightarrow> Some (fs\<lparr>points := Some (AList.update name n' es)\<rparr>)))"

definition read_points_json :: "tiles_dir \<Rightarrow> string \<Rightarrow> json option" where
  "read_points_json fs name =
     (case points fs of None \<Rightarrow> None | Some es \<Rightarrow> read_json (map_of es name))"

fun normalize_loop :: "string list \<Rightarrow> tiles_dir \<Rightarrow> nat \<Rightarrow> nat \<times> tiles_dir" where
  "normalize_loop [] fs modified_count = (modified_count, fs)"
| "normalize_loop (ts_file # rest) fs modified_count =
     (case read_points_json fs ts_file of
        None \<Rightarrow> normalize_loop rest fs modified_count
      | Some data \<Rightarrow>
          (let (data', modified) = fix_uris_in_data (points_is_file fs) data
           in if modified
              then (case write_points_json fs ts_file data' of
                      None \<Rightarrow> normalize_loop rest fs modified_count
                    | Some fs' \<Rightarrow> normalize_loop rest fs' (modified_count + 1))
              else normalize_loop rest fs modified_count))"

definition normalize_sub_tileset_uris_in_points :: "tiles_dir \<Rightarrow> error + nat \<times> tiles_dir" where
  "normalize_sub_tileset_uris_in_points fs =
     (if points_stat_error fs then Inl OSError
      else case points fs of
             None \<Rightarrow> Inr (0, fs)
           | Some es \<Rightarrow> Inr (normalize_loop (filter glob_match (map fst es)) fs 0))"

section \<open>The conversion: convert\_las\_to\_3dtiles\<close>

text \<open>
  What the conversion reads from its environment is a field of the world: whether the
  sibling of the interpreter exists, what \<^verbatim>\<open>shutil.which\<close> finds, what \<^verbatim>\<open>laspy\<close>
  (not part of this repository) answers for a given file, and how the locale's encoding
  decodes a byte string (\<open>None\<close> when it cannot). The output directory is \<open>None\<close> while it
  does not exist. The input files live outside it. \<open>engine_calls\<close> is the record of the
  argument vectors given to \<^verbatim>\<open>subprocess.run\<close>, oldest first.
\<close>

record request =
  input_path :: string
  output_dir :: string
  extra_fields :: "string option"
  srs_out :: "string option"
  overwrite :: bool

record world =
  out_dir :: "tiles_dir option"
  exe_beside_interpreter :: "string option"
  which_py3dtiles :: "string option"
  las_fresh :: "string \<Rightarrow> bool"
  laspy_transcodes :: "string \<Rightarrow> bool"
  laspy_has_crs :: "string \<Rightarrow> bool"
  decode_output :: "string \<Rightarrow> string option"
  engine_calls :: "string list list"

text \<open>The engine is a black box: it gets the command line and the output directory, and
  leaves an exit code, the bytes it wrote to its combined output and the directory as it
  made it.\<close>

type_synonym engine = "string list \<Rightarrow> tiles_dir \<Rightarrow> (int \<times> string) \<times> tiles_dir"

text \<open>Python's truth value of an \<^verbatim>\<open>Optional[str]\<close>: neither \<^verbatim>\<open>None\<close> nor empty.\<close>

fun truthy :: "string option \<Rightarrow> bool" where
  "truthy None = False"
| "truthy (Some s) = (s \<noteq> [])"

subsection \<open>Paths\<close>

definition path_name :: "string \<Rightarrow> string" where
  "path_name p = rev (takeWhile (\<lambda>c. c \<noteq> CHR ''/'') (rev p))"

text \<open>\<^verbatim>\<open>PurePath.suffix\<close>: from the last dot of the name, unless the name starts or ends
  with that dot.\<close>

definition path_suffix :: "string \<Rightarrow> string" where
  "path_suffix p =
     (let nm = path_name p;
          ext = rev (takeWhile (\<lambda>c. c \<noteq> CHR ''.'') (rev nm))
      in if CHR ''.'' \<in> set nm \<and> ext \<noteq> [] \<and> length ext + 1 < length nm
         then CHR ''.'' # ext else [])"

definition with_suffix :: "string \<Rightarrow> string \<Rightarrow> string" where
  "with_suffix p s = take (length p - length (path_suffix p)) p @ s"

definition lower_char :: "char \<Rightarrow> char" where
  "lower_char c =
     (if 65 \<le> (of_char c :: nat) \<and> (of_char c :: nat) \<le> 90
      then char_of ((of_char c :: nat) + 32) else c)"

definition lower :: "string \<Rightarrow> string" where
  "lower s = map lower_char s"

text \<open>
  \<^verbatim>\<open>str(d / name)\<close> for a directory \<open>d\<close> that is the text of a \<^verbatim>\<open>Path\<close>, hence already
  normalised: \<^verbatim>\<open>.\<close> stands for the empty path, and only a root ends with a separator.
\<close>

definition path_join :: "string \<Rightarrow> string \<Rightarrow> string" where
  "path_join d name =
     (if d = ''.'' then name
      else if endswith d ''/'' then d @ name
      else d @ ''/'' @ name)"

subsection \<open>Decimal text of the exit code\<close>

fun str_nat :: "nat \<Rightarrow> string" where
  "str_nat n =
     (if n < 10 then [''0123456789'' ! n]
      else str_nat (n div 10) @ [''0123456789'' ! (n mod 10)])"

declare str_nat.simps [simp del]

definition str_int :: "int \<Rightarrow> string" where
  "str_int i = (if i < 0 then CHR ''-'' # str_nat (nat (- i)) else str_nat (nat i))"

subsection \<open>Input preparation and tool lookup\<close>

text \<open>The text of the underlying \<^verbatim>\<open>laspy\<close> exception, which ends the message in the
  source, is left out; the caller drops the whole error.\<close>

definition uncompress_laz_to_las :: "world \<Rightarrow> string \<Rightarrow> error + string" where
  "uncompress_laz_to_las w laz_path =
     (let las_path = with_suffix laz_path ''.las''
      in if las_fresh w las_path then Inr las_path
         else if laspy_transcodes w laz_path then Inr las_path
         else Inl (RuntimeError (''Failed to uncompress '' @ path_name laz_path @ '' to LAS'')))"

definition resolve_py3dtiles_executable :: "world \<Rightarrow> error + string" where
  "resolve_py3dtiles_executable w =
     (case exe_beside_interpreter w of
        Some py3dtiles_exe \<Rightarrow> Inr py3dtiles_exe
      | None \<Rightarrow>
          (case which_py3dtiles w of
             None \<Rightarrow> Inl (RuntimeError ''py3dtiles not found in venv or PATH'')
           | Some found \<Rightarrow>
               if found = [] then Inl (RuntimeError ''py3dtiles not found in venv or PATH'')
               else Inr found))"

subsection \<open>The command line\<close>

definition build_cmd ::
  "string \<Rightarrow> string \<Rightarrow> bool \<Rightarrow> string option \<Rightarrow> string option \<Rightarrow> string \<Rightarrow> string list" where
  "build_cmd py3dtiles_exe out has_crs srs extra tiles_input =
     [py3dtiles_exe, ''convert'', ''--out'', out]
     @ (if has_crs \<and> truthy srs
        then (case srs of Some v \<Rightarrow> [''--srs_out'', v] @ [''--pyproj-always-xy''] | None \<Rightarrow> [])
        else [])
     @ (if truthy extra
        then (case extra of Some v \<Rightarrow> [''--extra-fields'', v] | None \<Rightarrow> [])
        else [])
     @ [tiles_input]"

subsection \<open>The output directory's life cycle\<close>

definition empty_dir :: tiles_dir where
  "empty_dir = \<lparr>main_tileset = None, points = None, deep_file = (\<lambda>p. False),
                points_stat_error = False, tiles_log = None\<rparr>"

text \<open>\<^verbatim>\<open>mkdir(parents=True, exist_ok=True)\<close>\<close>

fun mkdir :: "tiles_dir option \<Rightarrow> tiles_dir" where
  "mkdir None = empty_dir"
| "mkdir (Some d) = d"

text \<open>\<^verbatim>\<open>shutil.rmtree\<close> followed by \<^verbatim>\<open>mkdir\<close>, when \<^verbatim>\<open>overwrite\<close> is set.\<close>

definition prepare_output :: "bool \<Rightarrow> tiles_dir option \<Rightarrow> tiles_dir" where
  "prepare_output ovw d = (let d1 = mkdir d in if ovw then mkdir None else d1)"

subsection \<open>Running the engine\<close>

text \<open>
  \<^verbatim>\<open>subprocess.run(cmd, stdout=PIPE, stderr=STDOUT, text=True)\<close>: the child runs to its
  end, then its output is decoded with the locale's encoding and every \<^verbatim>\<open>\r\n\<close> and lone
  \<^verbatim>\<open>\r\<close> becomes \<^verbatim>\<open>\n\<close>. Output that does not decode raises after the child has
  terminated and has done to the directory what it did.
\<close>

fun universal_newlines :: "string \<Rightarrow> string" where
  "universal_newlines [] = []"
| "universal_newlines (c # cs) =
     (if c = CHR 0x0D
      then (case cs of
              [] \<Rightarrow> [CHR 0x0A]
            | d # ds \<Rightarrow> if d = CHR 0x0A then CHR 0x0A # universal_newlines ds
                        else CHR 0x0A # universal_newlines cs)
      else c # universal_newlines cs)"

definition subprocess_run ::
  "engine \<Rightarrow> string list \<Rightarrow> world \<Rightarrow> tiles_dir \<Rightarrow> (error + int \<times> string) \<times> world \<times> tiles_dir" where
  "subprocess_run eng cmd w d =
     (let ((returncode, raw), d1) = eng cmd d;
          w1 = w\<lparr>engine_calls := engine_calls w @ [cmd]\<rparr>
      in case decode_output w raw of
           None \<Rightarrow> (Inl UnicodeDecodeError, w1, d1)
         | Some txt \<Rightarrow> (Inr (returncode, universal_newlines txt), w1, d1))"

subsection \<open>The repair stage and the whole conversion\<close>

text \<open>The \<^verbatim>\<open>try\<close> around both passes: an exception of either ends the stage and is
  dropped; what was written before it stays written.\<close>

definition post_process :: "tiles_dir \<Rightarrow> tiles_dir" where
  "post_process d =
     (let (modified_main, d1) = rewrite_child_tileset_uris_if_needed d
      in case normalize_sub_tileset_uris_in_points d1 of
           Inl e \<Rightarrow> d1
         | Inr (normalized_count, d2) \<Rightarrow> d2)"

text \<open>Lines 243 to 249: the LAS file to hand to the engine; a failed decompression falls
  back to the input as it is.\<close>

definition prepare_input :: "world \<Rightarrow> request \<Rightarrow> string" where
  "prepare_input w rq =
     (if lower (path_suffix (input_path rq)) = ''.laz''
      then (case uncompress_laz_to_las w (input_path rq) of
              Inr las \<Rightarrow> las
            | Inl e \<Rightarrow> input_path rq)
      else input_path rq)"

definition convert_las_to_3dtiles ::
  "engine \<Rightarrow> request \<Rightarrow> world \<Rightarrow> (error + string) \<times> world" where
  "convert_las_to_3dtiles eng rq w =
     (let d0 = prepare_output (overwrite rq) (out_dir w);
          w0 = w\<lparr>out_dir := Some d0\<rparr>;
          tiles_input = prepare_input w rq;
          has_crs = laspy_has_crs w tiles_input
      in case resolve_py3dtiles_executable w of
           Inl e \<Rightarrow> (Inl e, w0)
         | Inr py3dtiles_exe \<Rightarrow>
             (let cmd = build_cmd py3dtiles_exe (output_dir rq) has_crs (srs_out rq)
                          (extra_fields rq) tiles_input;
                  (proc, w1, d1) = subprocess_run eng cmd w d0
              in case proc of
                   Inl e \<Rightarrow> (Inl e, w1\<lparr>out_dir := Some d1\<rparr>)
                 | Inr (returncode, out) \<Rightarrow>
                     (let d2 = d1\<lparr>tiles_log := Some out\<rparr>
                      in if returncode \<noteq> 0
                         then (Inl (RuntimeError
                                      (''tiles conversion (py3dtiles) failed with exit code ''
                                       @ str_int returncode @ ''; see tiles_log.txt'')),
                               w1\<lparr>out_dir := Some d2\<rparr>)
                         else if main_tileset d2 = None
                         then (Inl (RuntimeError ''tiles conversion did not produce tileset.json''),
                               w1\<lparr>out_dir := Some d2\<rparr>)
                         else (Inr (path_join (output_dir rq) ''tileset.json''),
                               w1\<lparr>out_dir := Some (post_process d2)\<rparr>))))"

section \<open>The reference sites of a manifest\<close>

text \<open>
  The data model in its own words: a reference object carries a \<^verbatim>\<open>uri\<close> string; a tree
  node may have a \<^verbatim>\<open>content\<close> object, a \<^verbatim>\<open>contents\<close> sequence of such objects and a
  \<^verbatim>\<open>children\<close> sequence of nodes; the tree hangs from the \<^verbatim>\<open>root\<close> field of the top-level
  object. \<open>manifest_uris\<close> lists the uri strings of all reference sites, in document order.
\<close>

definition ref_uri :: "json \<Rightarrow> string list" where
  "ref_uri obj =
     (case obj of
        JObj kvs \<Rightarrow> (case map_of kvs ''uri'' of Some (JStr u) \<Rightarrow> [u] | _ \<Rightarrow> [])
      | _ \<Rightarrow> [])"

function (sequential) ref_uris :: "json \<Rightarrow> string list" where
  "ref_uris (JObj kvs) =
     (case map_of kvs ''content'' of Some (JObj c) \<Rightarrow> ref_uri (JObj c) | _ \<Rightarrow> [])
     @ (case map_of kvs ''contents'' of Some (JArr cs) \<Rightarrow> concat (map ref_uri cs) | _ \<Rightarrow> [])
     @ (case map_of kvs ''children'' of Some (JArr ns) \<Rightarrow> concat (map ref_uris ns) | _ \<Rightarrow> [])"
| "ref_uris node = []"
  by pat_completeness auto
termination
  apply (relation "measure size")
   apply simp
  apply (auto dest!: size_map_of_lt size_arr_elem_lt)
  done

text \<open>
  Both fixers are instances of one scheme: a partial function on uri strings, applied to
  a reference object.
\<close>

definition subst_uri :: "(string \<Rightarrow> string option) \<Rightarrow> string \<Rightarrow> string" where
  "subst_uri fx u = (case fx u of Some u' \<Rightarrow> u' | None \<Rightarrow> u)"

definition rewrite_ref :: "(string \<Rightarrow> string option) \<Rightarrow> fixer" where
  "rewrite_ref fx obj =
     (case obj of
        JObj kvs \<Rightarrow>
          (case map_of kvs ''uri'' of
             Some (JStr u) \<Rightarrow>
               (case fx u of
                  Some u' \<Rightarrow> (JObj (AList.update ''uri'' (JStr u') kvs), True)
                | None \<Rightarrow> (obj, False))
           | _ \<Rightarrow> (obj, False))
      | _ \<Rightarrow> (obj, False))"

fun is_obj :: "json \<Rightarrow> bool" where
  "is_obj (JObj kvs) = True"
| "is_obj _ = False"

lemma rewrite_ref_uri:
  "ref_uri (fst (rewrite_ref fx obj)) = map (subst_uri fx) (ref_uri obj)"
  by (auto simp: rewrite_ref_def ref_uri_def subst_uri_def update_conv'
           split: json.splits option.splits)

lemma rewrite_ref_flag:
  "snd (rewrite_ref fx obj) = (\<exists>u \<in> set (ref_uri obj). fx u \<noteq> None)"
  by (auto simp: rewrite_ref_def ref_uri_def split: json.splits option.splits)

lemma rewrite_ref_obj: "is_obj (fst (rewrite_ref fx obj)) = is_obj obj"
  by (auto simp: rewrite_ref_def split: json.splits option.splits)

lemma rewrite_ref_non_obj: "\<not> is_obj x \<Longrightarrow> rewrite_ref fx x = (x, False)"
  by (cases x) (auto simp: rewrite_ref_def)

lemma walk_non_obj: "\<not> is_obj x \<Longrightarrow> walk mf x = (x, False)"
  by (cases x) auto

lemma walk_obj: "is_obj (fst (walk mf x)) = is_obj x"
  by (cases x) (auto split: prod.splits)

lemma each_dict_total:
  assumes "\<And>x. \<not> is_obj x \<Longrightarrow> f x = (x, False)"
  shows "each_dict f xs = (map (\<lambda>x. fst (f x)) xs, \<exists>x \<in> set xs. snd (f x))"
proof -
  have "(\<lambda>x. case x of JObj _ \<Rightarrow> f x | _ \<Rightarrow> (x, False)) = f"
  proof
    fix x show "(case x of JObj _ \<Rightarrow> f x | _ \<Rightarrow> (x, False)) = f x"
      using assms [of x] by (cases x) auto
  qed
  then show ?thesis
    by (simp add: each_dict_def list_ex_iff comp_def)
qed

lemma ref_uri_non_obj: "\<not> is_obj x \<Longrightarrow> ref_uri x = []"
  by (cases x) (auto simp: ref_uri_def)

definition obj_at :: "jdict \<Rightarrow> string \<Rightarrow> jdict option" where
  "obj_at kvs k = (case map_of kvs k of Some (JObj c) \<Rightarrow> Some c | _ \<Rightarrow> None)"

definition arr_at :: "jdict \<Rightarrow> string \<Rightarrow> json list option" where
  "arr_at kvs k = (case map_of kvs k of Some (JArr xs) \<Rightarrow> Some xs | _ \<Rightarrow> None)"

lemma case_obj_at:
  "(case map_of kvs k of Some (JObj c) \<Rightarrow> f c | _ \<Rightarrow> d)
   = (case obj_at kvs k of Some c \<Rightarrow> f c | None \<Rightarrow> d)"
  by (simp add: obj_at_def split: option.split json.split)

lemma case_arr_at:
  "(case map_of kvs k of Some (JArr xs) \<Rightarrow> g xs | _ \<Rightarrow> d)
   = (case arr_at kvs k of Some xs \<Rightarrow> g xs | None \<Rightarrow> d)"
  by (simp add: arr_at_def split: option.split json.split)

lemma obj_at_update_same: "obj_at (AList.update k (JObj c) kvs) k = Some c"
  by (simp add: obj_at_def update_conv')

lemma obj_at_update_other: "k \<noteq> k' \<Longrightarrow> obj_at (AList.update k' v kvs) k = obj_at kvs k"
  by (simp add: obj_at_def update_conv')

lemma arr_at_update_other:
  "k \<noteq> k' \<Longrightarrow> arr_at (AList.update k' v kvs) k = arr_at kvs k"
  by (simp add: arr_at_def update_conv')

lemma arr_at_update_same:
  "arr_at (AList.update k (JArr xs) kvs) k = Some xs"
  by (simp add: arr_at_def update_conv')

lemma fix_content_alt:
  "fix_content mf kvs =
     (case obj_at kvs ''content'' of
        Some c \<Rightarrow> (AList.update ''content'' (fst (mf (JObj c))) kvs, snd (mf (JObj c)))
      | None \<Rightarrow> (kvs, False))"
  unfolding fix_content_def case_obj_at by (simp add: case_prod_beta split: option.split)

lemma fix_contents_alt:
  "fix_contents (rewrite_ref fx) kvs acc =
     (case arr_at kvs ''contents'' of
        Some cs \<Rightarrow> (AList.update ''contents'' (JArr (map (\<lambda>c. fst (rewrite_ref fx c)) cs)) acc,
                    \<exists>c \<in> set cs. snd (rewrite_ref fx c))
      | None \<Rightarrow> (acc, False))"
  unfolding fix_contents_def case_arr_at
  by (simp add: each_dict_total rewrite_ref_non_obj split: option.split)

lemma walk_alt:
  "walk (rewrite_ref fx) (JObj kvs) =
     (let r1 = fix_content (rewrite_ref fx) kvs;
          r2 = fix_contents (rewrite_ref fx) kvs (fst r1);
          r3 = (case arr_at kvs ''children'' of
                  Some ns \<Rightarrow> (AList.update ''children''
                                (JArr (map (\<lambda>x. fst (walk (rewrite_ref fx) x)) ns)) (fst r2),
                              \<exists>x \<in> set ns. snd (walk (rewrite_ref fx) x))
                | None \<Rightarrow> (fst r2, False))
      in (JObj (fst r3), snd r1 \<or> snd r2 \<or> snd r3))"
  unfolding walk.simps case_arr_at
  by (simp add: each_dict_total walk_non_obj case_prod_beta Let_def split: option.split)

definition get_content :: "jdict \<Rightarrow> json list" where
  "get_content kvs = (case obj_at kvs ''content'' of Some c \<Rightarrow> [JObj c] | None \<Rightarrow> [])"

definition get_contents :: "jdict \<Rightarrow> json list" where
  "get_contents kvs = (case arr_at kvs ''contents'' of Some cs \<Rightarrow> cs | None \<Rightarrow> [])"

definition get_children :: "jdict \<Rightarrow> json list" where
  "get_children kvs = (case arr_at kvs ''children'' of Some ns \<Rightarrow> ns | None \<Rightarrow> [])"

lemma get_content_update_same:
  "is_obj v \<Longrightarrow> get_content (AList.update ''content'' v kvs) = [v]"
  by (cases v) (simp_all add: get_content_def obj_at_update_same)

lemma get_update_other:
  "k \<noteq> ''content'' \<Longrightarrow> get_content (AList.update k v kvs) = get_content kvs"
  "k \<noteq> ''contents'' \<Longrightarrow> get_contents (AList.update k v kvs) = get_contents kvs"
  "k \<noteq> ''children'' \<Longrightarrow> get_children (AList.update k v kvs) = get_children kvs"
  by (simp_all add: get_content_def get_contents_def get_children_def
                    obj_at_update_other arr_at_update_other)

lemma get_update_same:
  "get_contents (AList.update ''contents'' (JArr xs) kvs) = xs"
  "get_children (AList.update ''children'' (JArr xs) kvs) = xs"
  by (simp_all add: get_contents_def get_children_def arr_at_update_same)

lemma ref_uris_get:
  "ref_uris (JObj kvs) = concat (map ref_uri (get_content kvs))
      @ concat (map ref_uri (get_contents kvs)) @ concat (map ref_uris (get_children kvs))"
  unfolding ref_uris.simps case_obj_at case_arr_at
  by (simp add: get_content_def get_contents_def get_children_def split: option.split)

lemma walk_get:
  assumes "walk (rewrite_ref fx) (JObj kvs) = (n', m)"
  shows "\<exists>kvs'. n' = JObj kvs'
     \<and> get_content kvs' = map (\<lambda>c. fst (rewrite_ref fx c)) (get_content kvs)
     \<and> get_contents kvs' = map (\<lambda>c. fst (rewrite_ref fx c)) (get_contents kvs)
     \<and> get_children kvs' = map (\<lambda>x. fst (walk (rewrite_ref fx) x)) (get_children kvs)
     \<and> m = ((\<exists>c \<in> set (get_content kvs). snd (rewrite_ref fx c))
           \<or> (\<exists>c \<in> set (get_contents kvs). snd (rewrite_ref fx c))
           \<or> (\<exists>x \<in> set (get_children kvs). snd (walk (rewrite_ref fx) x)))"
proof -
  let ?mf = "rewrite_ref fx"
  define r1 where "r1 = fix_content ?mf kvs"
  define r2 where "r2 = fix_contents ?mf kvs (fst r1)"
  define r3 where "r3 = (case arr_at kvs ''children'' of
                  Some ns \<Rightarrow> (AList.update ''children''
                                (JArr (map (\<lambda>x. fst (walk ?mf x)) ns)) (fst r2),
                              \<exists>x \<in> set ns. snd (walk ?mf x))
                | None \<Rightarrow> (fst r2, False))"
  have res: "n' = JObj (fst r3)" "m = (snd r1 \<or> snd r2 \<or> snd r3)"
    using assms unfolding walk_alt r1_def r2_def r3_def by (simp_all add: Let_def)
  have s1: "get_content (fst r1) = map (\<lambda>c. fst (?mf c)) (get_content kvs)"
    "get_contents (fst r1) = get_contents kvs"
    "get_children (fst r1) = get_children kvs"
    "snd r1 = (\<exists>c \<in> set (get_content kvs). snd (?mf c))"
    unfolding r1_def fix_content_alt
    by (auto simp: get_update_other get_content_update_same rewrite_ref_obj
                   get_content_def [of kvs] split: option.split)
  have s2: "get_content (fst r2) = get_content (fst r1)"
    "get_contents (fst r2) = map (\<lambda>c. fst (?mf c)) (get_contents kvs)"
    "get_children (fst r2) = get_children (fst r1)"
    "snd r2 = (\<exists>c \<in> set (get_contents kvs). snd (?mf c))"
    unfolding r2_def fix_contents_alt
    by (auto simp: get_update_other get_update_same s1 get_contents_def [of kvs]
             split: option.split)
  have s3: "get_content (fst r3) = get_content (fst r2)"
    "get_contents (fst r3) = get_contents (fst r2)"
    "get_children (fst r3) = map (\<lambda>x. fst (walk ?mf x)) (get_children kvs)"
    "snd r3 = (\<exists>x \<in> set (get_children kvs). snd (walk ?mf x))"
    unfolding r3_def
    by (auto simp: get_update_other get_update_same s1 s2 get_children_def [of kvs]
             split: option.split)
  show ?thesis
    using res s1 s2 s3 by simp
qed

lemma get_children_size: "x \<in> set (get_children kvs) \<Longrightarrow> \<exists>ns. map_of kvs ''children'' = Some (JArr ns) \<and> x \<in> set ns"
  by (auto simp: get_children_def arr_at_def split: option.splits json.splits)

lemma walk_rewrite:
  "ref_uris (fst (walk (rewrite_ref fx) n)) = map (subst_uri fx) (ref_uris n)
   \<and> snd (walk (rewrite_ref fx) n) = (\<exists>u \<in> set (ref_uris n). fx u \<noteq> None)"
proof (induction n rule: ref_uris.induct)
  case (1 kvs)
  let ?mf = "rewrite_ref fx"
  obtain n' m where w: "walk ?mf (JObj kvs) = (n', m)" by fastforce
  from walk_get [OF w] obtain kvs' where n': "n' = JObj kvs'"
    and g1: "get_content kvs' = map (\<lambda>c. fst (?mf c)) (get_content kvs)"
    and g2: "get_contents kvs' = map (\<lambda>c. fst (?mf c)) (get_contents kvs)"
    and g3: "get_children kvs' = map (\<lambda>x. fst (walk ?mf x)) (get_children kvs)"
    and m: "m = ((\<exists>c \<in> set (get_content kvs). snd (?mf c))
           \<or> (\<exists>c \<in> set (get_contents kvs). snd (?mf c))
           \<or> (\<exists>x \<in> set (get_children kvs). snd (walk ?mf x)))"
    by blast
  have IH: "ref_uris (fst (walk ?mf x)) = map (subst_uri fx) (ref_uris x)
            \<and> snd (walk ?mf x) = (\<exists>u \<in> set (ref_uris x). fx u \<noteq> None)"
    if "x \<in> set (get_children kvs)" for x
    using 1 get_children_size [OF that] by blast
  have kids: "concat (map ref_uris (map (\<lambda>x. fst (walk ?mf x)) (get_children kvs)))
                = map (subst_uri fx) (concat (map ref_uris (get_children kvs)))"
    using IH by (simp add: map_concat comp_def cong: map_cong)
  have refs: "concat (map ref_uri (map (\<lambda>c. fst (?mf c)) cs))
                = map (subst_uri fx) (concat (map ref_uri cs))" for cs
    by (simp add: map_concat comp_def rewrite_ref_uri)
  have uris: "ref_uris n' = map (subst_uri fx) (ref_uris (JObj kvs))"
    unfolding n' ref_uris_get g1 g2 g3 kids refs by simp
  have flag: "m = (\<exists>u \<in> set (ref_uris (JObj kvs)). fx u \<noteq> None)"
    unfolding m ref_uris_get using IH by (auto simp: rewrite_ref_flag)
  show ?case unfolding w fst_conv snd_conv using uris flag by (rule conjI)
qed simp_all

definition manifest_uris :: "json \<Rightarrow> string list" where
  "manifest_uris data =
     (case data of
        JObj kvs \<Rightarrow> (case map_of kvs ''root'' of Some r \<Rightarrow> ref_uris r | None \<Rightarrow> [])
      | _ \<Rightarrow> [])"

definition bare_name :: "string \<Rightarrow> bool" where
  "bare_name u = (startswith u ''tileset.'' \<and> endswith u ''.json'' \<and> CHR ''/'' \<notin> set u)"

definition pass_a_uri :: "tiles_dir \<Rightarrow> string \<Rightarrow> string" where
  "pass_a_uri fs u = (if bare_name u \<and> points_is_file fs u then ''points/'' @ u else u)"

definition pass_b_uri :: "tiles_dir \<Rightarrow> string \<Rightarrow> string" where
  "pass_b_uri fs u =
     (if startswith u ''points/'' \<and> points_is_file fs (drop 7 u) then drop 7 u else u)"

definition fx_a :: "(string \<Rightarrow> bool) \<Rightarrow> string \<Rightarrow> string option" where
  "fx_a isf u = (if bare_name u \<and> isf u then Some (''points/'' @ u) else None)"

definition fx_b :: "(string \<Rightarrow> bool) \<Rightarrow> string \<Rightarrow> string option" where
  "fx_b isf u = (if startswith u ''points/'' \<and> isf (drop 7 u) then Some (drop 7 u) else None)"

lemma maybe_fix_uri_eq: "maybe_fix_uri isf = rewrite_ref (fx_a isf)"
proof
  fix obj show "maybe_fix_uri isf obj = rewrite_ref (fx_a isf) obj"
  proof (cases obj)
    case (JObj kvs)
    show ?thesis
    proof (cases "map_of kvs ''uri''")
      case None
      then show ?thesis by (simp add: JObj maybe_fix_uri_def rewrite_ref_def)
    next
      case (Some v)
      then show ?thesis
        by (cases v) (simp_all add: JObj maybe_fix_uri_def rewrite_ref_def fx_a_def bare_name_def)
    qed
  qed (simp_all add: maybe_fix_uri_def rewrite_ref_def)
qed

lemma maybe_fix_eq: "maybe_fix isf = rewrite_ref (fx_b isf)"
proof
  fix obj show "maybe_fix isf obj = rewrite_ref (fx_b isf) obj"
  proof (cases obj)
    case (JObj kvs)
    show ?thesis
    proof (cases "map_of kvs ''uri''")
      case None
      then show ?thesis by (simp add: JObj maybe_fix_def rewrite_ref_def)
    next
      case (Some v)
      then show ?thesis
        by (cases v) (simp_all add: JObj maybe_fix_def rewrite_ref_def fx_b_def Let_def eval_nat_numeral)
    qed
  qed (simp_all add: maybe_fix_def rewrite_ref_def)
qed

lemma walk_root_rewrite:
  assumes "walk_root (rewrite_ref fx) data = Some (data', m)"
  shows "manifest_uris data' = map (subst_uri fx) (manifest_uris data)
       \<and> m = (\<exists>u \<in> set (manifest_uris data). fx u \<noteq> None)"
proof (cases data)
  case (JObj kvs)
  show ?thesis
  proof (cases "map_of kvs ''root''")
    case None
    then show ?thesis using assms by (auto simp: JObj walk_root_def manifest_uris_def)
  next
    case (Some r)
    obtain r' m' where w: "walk (rewrite_ref fx) r = (r', m')" by fastforce
    from walk_rewrite [of fx r] have "ref_uris r' = map (subst_uri fx) (ref_uris r)"
      "m' = (\<exists>u \<in> set (ref_uris r). fx u \<noteq> None)" by (simp_all add: w)
    then show ?thesis using assms
      by (auto simp: JObj Some w walk_root_def manifest_uris_def update_conv')
  qed
qed (use assms in \<open>simp_all add: walk_root_def\<close>)

lemma walk_root_none: "walk_root mf data = None \<Longrightarrow> manifest_uris data = []"
  by (cases data) (auto simp: walk_root_def manifest_uris_def split: option.splits prod.splits)

lemma subst_fx_a: "subst_uri (fx_a (points_is_file fs)) = pass_a_uri fs"
  by (auto simp: subst_uri_def fx_a_def pass_a_uri_def)

lemma subst_fx_b: "subst_uri (fx_b (points_is_file fs)) = pass_b_uri fs"
  by (auto simp: subst_uri_def fx_b_def pass_b_uri_def)

section \<open>Pass A on a root manifest\<close>

text \<open>
  Claim C1. For every root manifest tree that Pass A can load and write back, a
  reference's uri is rewritten to the same name prefixed with \<^verbatim>\<open>points/\<close> if and only if it
  matches the bare-name pattern (starts with \<^verbatim>\<open>tileset.\<close>, ends with \<^verbatim>\<open>.json\<close>, has no
  path separator) and a file of that name exists under \<^verbatim>\<open>points/\<close>; the pass reports
  modified exactly when at least one reference was rewritten; every other uri, in
  particular any uri with a path separator, is left as it was, and nothing but the root
  manifest file changes.
\<close>

theorem pass_a_rewrites_bare_names:
  assumes "main_tileset fs = Some (File True True (Some data))"
  shows "\<exists>data'.
           rewrite_child_tileset_uris_if_needed fs
             = (\<exists>u \<in> set (manifest_uris data). bare_name u \<and> points_is_file fs u,
                fs\<lparr>main_tileset := Some (File True True (Some data'))\<rparr>)
         \<and> manifest_uris data' = map (pass_a_uri fs) (manifest_uris data)
         \<and> (\<forall>u. pass_a_uri fs u \<noteq> u \<longleftrightarrow> bare_name u \<and> points_is_file fs u)
         \<and> (\<forall>u. CHR ''/'' \<in> set u \<longrightarrow> pass_a_uri fs u = u)"
proof -
  let ?fx = "fx_a (points_is_file fs)"
  have same: "fs\<lparr>main_tileset := Some (File True True (Some data))\<rparr> = fs"
    using assms by simp
  have fxs: "(?fx u \<noteq> None) = (bare_name u \<and> points_is_file fs u)" for u
    by (simp add: fx_a_def)
  have tail: "(\<forall>u. pass_a_uri fs u \<noteq> u \<longleftrightarrow> bare_name u \<and> points_is_file fs u)
         \<and> (\<forall>u. CHR ''/'' \<in> set u \<longrightarrow> pass_a_uri fs u = u)"
    by (auto simp: pass_a_uri_def bare_name_def)
  show ?thesis
  proof (cases "walk_root (rewrite_ref ?fx) data")
    case None
    have "rewrite_child_tileset_uris_if_needed fs = (False, fs)"
      using assms None by (simp add: rewrite_child_tileset_uris_if_needed_def maybe_fix_uri_eq)
    moreover have "manifest_uris data = []" using walk_root_none [OF None] .
    ultimately show ?thesis using tail same by (intro exI [of _ data]) simp
  next
    case (Some r)
    obtain data' m where r: "r = (data', m)" by (cases r)
    note wr = walk_root_rewrite [OF Some [unfolded r]]
    have uris: "manifest_uris data' = map (pass_a_uri fs) (manifest_uris data)"
      using wr by (simp add: subst_fx_a)
    have meq: "m = (\<exists>u \<in> set (manifest_uris data). bare_name u \<and> points_is_file fs u)"
      using wr by (auto simp: fx_a_def)
    show ?thesis
    proof (cases m)
      case True
      have "rewrite_child_tileset_uris_if_needed fs
              = (True, fs\<lparr>main_tileset := Some (File True True (Some data'))\<rparr>)"
        using assms Some True
        by (simp add: rewrite_child_tileset_uris_if_needed_def maybe_fix_uri_eq r)
      then show ?thesis using uris meq True tail
        by (intro exI [of _ data']) simp
    next
      case False
      have run: "rewrite_child_tileset_uris_if_needed fs = (False, fs)"
        using assms Some False
        by (simp add: rewrite_child_tileset_uris_if_needed_def maybe_fix_uri_eq r)
      have none: "\<forall>u \<in> set (manifest_uris data). \<not> (bare_name u \<and> points_is_file fs u)"
        using meq False by simp
      then have "map (pass_a_uri fs) (manifest_uris data) = manifest_uris data"
        by (intro map_idI) (auto simp: pass_a_uri_def)
      then show ?thesis using run none tail same
        by (intro exI [of _ data]) simp
    qed
  qed
qed

subsection \<open>A root manifest with one bare reference and one payload reference\<close>

definition doc_a :: json where
  "doc_a = JObj [(''asset'', JObj [(''version'', JStr ''1.0'')]),
                 (''root'', JObj [(''content'', JObj [(''uri'', JStr ''tileset.1.json'')]),
                                  (''children'', JArr [JObj [(''content'',
                                      JObj [(''uri'', JStr ''mesh/tile_0.b3dm'')])]])])]"

definition dir_a :: tiles_dir where
  "dir_a = \<lparr>main_tileset = Some (File True True (Some doc_a)),
            points = Some [(''tileset.1.json'', File True True None)],
            deep_file = (\<lambda>p. True), points_stat_error = False, tiles_log = None\<rparr>"

lemma doc_a_uris: "manifest_uris doc_a = [''tileset.1.json'', ''mesh/tile_0.b3dm'']"
  by (simp add: doc_a_def manifest_uris_def ref_uri_def)

lemma dir_a_fix:
  "pass_a_uri dir_a ''tileset.1.json'' = ''points/tileset.1.json''"
  "pass_a_uri dir_a ''mesh/tile_0.b3dm'' = ''mesh/tile_0.b3dm''"
  by (simp_all add: pass_a_uri_def bare_name_def startswith_def endswith_def
                    points_is_file_def dir_a_def suffix_to_prefix)

theorem pass_a_rewrites_bare_names_witness:
  "main_tileset dir_a = Some (File True True (Some doc_a))
   \<and> fst (rewrite_child_tileset_uris_if_needed dir_a)
   \<and> (\<exists>data'. main_tileset (snd (rewrite_child_tileset_uris_if_needed dir_a))
                  = Some (File True True (Some data'))
              \<and> manifest_uris data' = [''points/tileset.1.json'', ''mesh/tile_0.b3dm''])"
proof -
  have h: "main_tileset dir_a = Some (File True True (Some doc_a))"
    by (simp add: dir_a_def)
  have b: "bare_name ''tileset.1.json'' \<and> points_is_file dir_a ''tileset.1.json''"
    by (simp add: bare_name_def startswith_def endswith_def
                    points_is_file_def dir_a_def suffix_to_prefix)
  from pass_a_rewrites_bare_names [OF h] obtain data' where
    run: "rewrite_child_tileset_uris_if_needed dir_a
            = (\<exists>u \<in> set (manifest_uris doc_a). bare_name u \<and> points_is_file dir_a u,
               dir_a\<lparr>main_tileset := Some (File True True (Some data'))\<rparr>)"
    and uris: "manifest_uris data' = map (pass_a_uri dir_a) (manifest_uris doc_a)"
    by blast
  have "fst (rewrite_child_tileset_uris_if_needed dir_a)"
    unfolding run fst_conv doc_a_uris using b by simp
  moreover have "manifest_uris data' = [''points/tileset.1.json'', ''mesh/tile_0.b3dm'']"
    unfolding uris doc_a_uris by (simp add: dir_a_fix)
  ultimately show ?thesis using h by (simp add: run)
qed

section \<open>Pass B's loop, one file at a time\<close>

text \<open>
  What one iteration does to the file it visits (\<open>fix_node\<close>) and whether it counts the
  file (\<open>persisted\<close>); the loop over a listing with distinct names then amounts to
  applying \<open>fix_node\<close> to every file the glob selects.
\<close>

definition fix_node :: "(string \<Rightarrow> bool) \<Rightarrow> node option \<Rightarrow> node option" where
  "fix_node isf x =
     (case read_json x of
        None \<Rightarrow> x
      | Some d \<Rightarrow>
          (if snd (fix_uris_in_data isf d)
           then (case write_json x (fst (fix_uris_in_data isf d)) of
                   None \<Rightarrow> x | Some n' \<Rightarrow> Some n')
           else x))"

definition persisted :: "(string \<Rightarrow> bool) \<Rightarrow> node option \<Rightarrow> bool" where
  "persisted isf x =
     (case read_json x of
        None \<Rightarrow> False
      | Some d \<Rightarrow> snd (fix_uris_in_data isf d)
                  \<and> write_json x (fst (fix_uris_in_data isf d)) \<noteq> None)"

lemma write_json_is_file:
  "write_json x d = Some n' \<Longrightarrow> is_file x \<and> is_file (Some n')"
  by (cases "(x, d)" rule: write_json.cases) auto

lemma is_file_map_of_update:
  assumes "is_file (map_of es n)" "is_file (Some n')"
  shows "is_file (map_of (AList.update n n' es) p) = is_file (map_of es p)"
  using assms by (simp add: update_conv')

lemma points_is_file_write:
  assumes "write_points_json fs n d = Some fs'"
  shows "points_is_file fs' = points_is_file fs"
proof -
  obtain es where es: "points fs = Some es"
    using assms by (auto simp: write_points_json_def split: option.splits)
  obtain n' where w: "write_json (map_of es n) d = Some n'"
    and fs': "fs' = fs\<lparr>points := Some (AList.update n n' es)\<rparr>"
    using assms es by (auto simp: write_points_json_def split: option.splits)
  note f = write_json_is_file [OF w]
  show ?thesis
  proof
    fix p show "points_is_file fs' p = points_is_file fs p"
      using is_file_map_of_update [of es n n' p] f
      by (simp add: points_is_file_def fs' es)
  qed
qed

lemma loop_skip:
  assumes "points fs = Some es" "\<not> persisted (points_is_file fs) (map_of es n)"
  shows "normalize_loop (n # rest) fs c = normalize_loop rest fs c"
    and "fix_node (points_is_file fs) (map_of es n) = map_of es n"
  using assms
  by (auto simp: persisted_def fix_node_def read_points_json_def write_points_json_def
           split: option.splits prod.splits)

lemma loop_write:
  assumes "points fs = Some es" "persisted (points_is_file fs) (map_of es n)"
  shows "\<exists>n'. fix_node (points_is_file fs) (map_of es n) = Some n'
            \<and> is_file (map_of es n) \<and> is_file (Some n')
            \<and> normalize_loop (n # rest) fs c
                = normalize_loop rest (fs\<lparr>points := Some (AList.update n n' es)\<rparr>) (c + 1)"
  using assms
  by (auto simp: persisted_def fix_node_def read_points_json_def write_points_json_def
           dest: write_json_is_file split: option.splits prod.splits)

lemma points_is_file_update:
  assumes "points fs = Some es" "is_file (map_of es n)" "is_file (Some n')"
  shows "points_is_file (fs\<lparr>points := Some (AList.update n n' es)\<rparr>) = points_is_file fs"
proof
  fix p show "points_is_file (fs\<lparr>points := Some (AList.update n n' es)\<rparr>) p = points_is_file fs p"
    using is_file_map_of_update [OF assms(2,3), of p] assms(1)
    by (simp add: points_is_file_def)
qed

lemma is_file_keys: "is_file (map_of es n) \<Longrightarrow> n \<in> fst ` set es"
  by (cases "map_of es n") (auto dest: map_of_SomeD intro: rev_image_eqI)

lemma normalize_loop_char:
  assumes "points fs = Some es" "distinct ns"
  shows "\<exists>es'. normalize_loop ns fs c
              = (c + length (filter (\<lambda>n. persisted (points_is_file fs) (map_of es n)) ns),
                 fs\<lparr>points := Some es'\<rparr>)
            \<and> map fst es' = map fst es
            \<and> (\<forall>n. map_of es' n = (if n \<in> set ns
                                    then fix_node (points_is_file fs) (map_of es n)
                                    else map_of es n))"
  using assms
proof (induction ns arbitrary: fs es c)
  case Nil
  then show ?case by (intro exI [of _ es]) simp
next
  case (Cons n rest)
  let ?isf = "points_is_file fs"
  show ?case
  proof (cases "persisted ?isf (map_of es n)")
    case False
    from Cons.IH [OF Cons.prems(1), of c] Cons.prems(2)
    obtain es' where
      run: "normalize_loop rest fs c
              = (c + length (filter (\<lambda>n. persisted ?isf (map_of es n)) rest),
                 fs\<lparr>points := Some es'\<rparr>)"
      and keys: "map fst es' = map fst es"
      and look: "\<forall>k. map_of es' k = (if k \<in> set rest then fix_node ?isf (map_of es k)
                                      else map_of es k)"
      by auto
    show ?thesis
      using loop_skip [OF Cons.prems(1) False] run keys look False
      by (intro exI [of _ es']) simp
  next
    case True
    from loop_write [OF Cons.prems(1) True, of rest c] obtain n' where
      fx: "fix_node ?isf (map_of es n) = Some n'"
      and f1: "is_file (map_of es n)" and f2: "is_file (Some n')"
      and step: "normalize_loop (n # rest) fs c
                = normalize_loop rest (fs\<lparr>points := Some (AList.update n n' es)\<rparr>) (c + 1)"
      by blast
    let ?fs1 = "fs\<lparr>points := Some (AList.update n n' es)\<rparr>"
    let ?es1 = "AList.update n n' es"
    have p1: "points ?fs1 = Some ?es1" by simp
    have isf1: "points_is_file ?fs1 = ?isf"
      by (rule points_is_file_update [OF Cons.prems(1) f1 f2])
    have nrest: "n \<notin> set rest" and drest: "distinct rest"
      using Cons.prems(2) by simp_all
    from Cons.IH [OF p1 drest, of "c + 1"]
    obtain es' where
      run: "normalize_loop rest ?fs1 (c + 1)
              = (c + 1 + length (filter (\<lambda>k. persisted ?isf (map_of ?es1 k)) rest),
                 ?fs1\<lparr>points := Some es'\<rparr>)"
      and keys: "map fst es' = map fst ?es1"
      and look: "\<forall>k. map_of es' k = (if k \<in> set rest then fix_node ?isf (map_of ?es1 k)
                                      else map_of ?es1 k)"
      unfolding isf1 by auto
    have other: "map_of ?es1 k = map_of es k" if "k \<noteq> n" for k
      using that by (simp add: update_conv')
    have cnt: "filter (\<lambda>k. persisted ?isf (map_of ?es1 k)) rest
             = filter (\<lambda>k. persisted ?isf (map_of es k)) rest"
    proof (intro filter_cong refl)
      fix k assume "k \<in> set rest"
      then have "k \<noteq> n" using nrest by auto
      then show "persisted ?isf (map_of ?es1 k) = persisted ?isf (map_of es k)"
        using other [of k] by simp
    qed
    have keys': "map fst es' = map fst es"
      using keys is_file_keys [OF f1] by (simp add: update_keys)
    have look': "map_of es' k = (if k \<in> set (n # rest) then fix_node ?isf (map_of es k)
                                 else map_of es k)" for k
    proof (cases "k = n")
      case True
      then show ?thesis using look nrest fx by (simp add: update_conv')
    next
      case False
      then show ?thesis using look by (simp add: other)
    qed
    show ?thesis
      unfolding step run cnt using True keys' look'
      by (intro exI [of _ es']) simp
  qed
qed

definition gets_rewritten :: "tiles_dir \<Rightarrow> node \<Rightarrow> bool" where
  "gets_rewritten fs nd =
     (case nd of
        File r w b \<Rightarrow>
          r \<and> w \<and> (case b of
                     Some data \<Rightarrow> (\<exists>u \<in> set (manifest_uris data).
                                     startswith u ''points/'' \<and> points_is_file fs (drop 7 u))
                   | None \<Rightarrow> False)
      | Dir \<Rightarrow> False)"

lemma fix_uris_char:
  "manifest_uris (fst (fix_uris_in_data (points_is_file fs) d))
     = map (pass_b_uri fs) (manifest_uris d)"
  "snd (fix_uris_in_data (points_is_file fs) d)
     = (\<exists>u \<in> set (manifest_uris d). startswith u ''points/'' \<and> points_is_file fs (drop 7 u))"
proof -
  let ?fx = "fx_b (points_is_file fs)"
  have both: "manifest_uris (fst (fix_uris_in_data (points_is_file fs) d))
     = map (pass_b_uri fs) (manifest_uris d) \<and> snd (fix_uris_in_data (points_is_file fs) d)
     = (\<exists>u \<in> set (manifest_uris d). startswith u ''points/'' \<and> points_is_file fs (drop 7 u))"
  proof (cases "walk_root (rewrite_ref ?fx) d")
    case None
    then show ?thesis
      using walk_root_none [OF None] by (simp add: fix_uris_in_data_def maybe_fix_eq)
  next
    case (Some r)
    obtain d' m where r: "r = (d', m)" by (cases r)
    from walk_root_rewrite [OF Some [unfolded r]]
    have "manifest_uris d' = map (pass_b_uri fs) (manifest_uris d)"
      and "m = (\<exists>u \<in> set (manifest_uris d). startswith u ''points/'' \<and> points_is_file fs (drop 7 u))"
      by (auto simp: subst_fx_b fx_b_def)
    then show ?thesis
      by (simp add: fix_uris_in_data_def maybe_fix_eq Some r)
  qed
  show "manifest_uris (fst (fix_uris_in_data (points_is_file fs) d))
     = map (pass_b_uri fs) (manifest_uris d)" using both by blast
  show "snd (fix_uris_in_data (points_is_file fs) d)
     = (\<exists>u \<in> set (manifest_uris d). startswith u ''points/'' \<and> points_is_file fs (drop 7 u))"
    using both by blast
qed

lemma persisted_eq:
  "persisted (points_is_file fs) (Some nd) = gets_rewritten fs nd"
proof (cases nd)
  case Dir
  then show ?thesis by (simp add: persisted_def gets_rewritten_def)
next
  case (File r w b)
  show ?thesis
  proof (cases b)
    case None
    then show ?thesis by (cases r) (simp_all add: File persisted_def gets_rewritten_def)
  next
    case (Some d)
    then show ?thesis
      by (cases r; cases w) (simp_all add: File persisted_def gets_rewritten_def fix_uris_char)
  qed
qed

lemma persisted_none: "\<not> persisted isf None"
  by (simp add: persisted_def)

lemma fix_node_none: "fix_node isf None = None"
  by (simp add: fix_node_def)

lemma fix_node_file:
  "\<exists>d'. fix_node (points_is_file fs) (Some (File True True (Some d)))
            = Some (File True True (Some d'))
       \<and> manifest_uris d' = map (pass_b_uri fs) (manifest_uris d)"
proof (cases "snd (fix_uris_in_data (points_is_file fs) d)")
  case True
  then show ?thesis
    by (intro exI [of _ "fst (fix_uris_in_data (points_is_file fs) d)"])
       (simp add: fix_node_def fix_uris_char(1))
next
  case False
  then have "\<forall>u \<in> set (manifest_uris d).
               \<not> (startswith u ''points/'' \<and> points_is_file fs (drop 7 u))"
    by (simp add: fix_uris_char(2))
  then have "map (pass_b_uri fs) (manifest_uris d) = manifest_uris d"
    by (intro map_idI) (auto simp: pass_b_uri_def)
  then show ?thesis using False
    by (intro exI [of _ d]) (simp add: fix_node_def)
qed

lemma fix_node_malformed: "fix_node isf (Some (File r w None)) = Some (File r w None)"
  by (cases r) (simp_all add: fix_node_def)

lemma count_entries:
  assumes "distinct (map fst es)"
  shows "length (filter (\<lambda>n. persisted (points_is_file fs) (map_of es n))
                        (filter glob_match (map fst es)))
       = length (filter (\<lambda>(name, nd). glob_match name \<and> gets_rewritten fs nd) es)"
proof -
  let ?P = "\<lambda>n. persisted (points_is_file fs) (map_of es n)"
  have B: "filter P (filter glob_match (map fst xs))
         = map fst (filter (\<lambda>e. glob_match (fst e) \<and> P (fst e)) xs)" for P xs
    by (induction xs) auto
  have A: "filter (\<lambda>e. glob_match (fst e) \<and> ?P (fst e)) es
         = filter (\<lambda>(name, nd). glob_match name \<and> gets_rewritten fs nd) es"
  proof (rule filter_cong [OF refl])
    fix e assume e: "e \<in> set es"
    obtain name nd where p: "e = (name, nd)" by (cases e)
    have "map_of es name = Some nd"
      using assms e p by simp
    then show "(glob_match (fst e) \<and> ?P (fst e))
             = (case e of (name, nd) \<Rightarrow> glob_match name \<and> gets_rewritten fs nd)"
      by (simp add: p persisted_eq)
  qed
  show ?thesis unfolding B A by simp
qed

lemma pass_b_char:
  assumes "points fs = Some es" "distinct (map fst es)" "\<not> points_stat_error fs"
  shows "\<exists>es'. normalize_sub_tileset_uris_in_points fs
              = Inr (length (filter (\<lambda>(name, nd). glob_match name \<and> gets_rewritten fs nd) es),
                     fs\<lparr>points := Some es'\<rparr>)
            \<and> map fst es' = map fst es
            \<and> (\<forall>n. map_of es' n = (if glob_match n
                                    then fix_node (points_is_file fs) (map_of es n)
                                    else map_of es n))"
proof -
  let ?ns = "filter glob_match (map fst es)"
  have d: "distinct ?ns" using assms(2) by simp
  from normalize_loop_char [OF assms(1) d, of 0] obtain es' where
    run: "normalize_loop ?ns fs 0
            = (0 + length (filter (\<lambda>n. persisted (points_is_file fs) (map_of es n)) ?ns),
               fs\<lparr>points := Some es'\<rparr>)"
    and keys: "map fst es' = map fst es"
    and look: "\<forall>n. map_of es' n = (if n \<in> set ?ns
                                    then fix_node (points_is_file fs) (map_of es n)
                                    else map_of es n)"
    by blast
  have look': "map_of es' n = (if glob_match n then fix_node (points_is_file fs) (map_of es n)
                               else map_of es n)" for n
  proof (cases "n \<in> fst ` set es")
    case True
    then show ?thesis using look by simp
  next
    case False
    then have "map_of es n = None" by (simp add: map_of_eq_None_iff)
    then show ?thesis using look by (simp add: fix_node_none)
  qed
  have "normalize_sub_tileset_uris_in_points fs
          = Inr (length (filter (\<lambda>(name, nd). glob_match name \<and> gets_rewritten fs nd) es),
                 fs\<lparr>points := Some es'\<rparr>)"
    using assms(1,3) run count_entries [OF assms(2), of fs]
    by (simp add: normalize_sub_tileset_uris_in_points_def)
  then show ?thesis using keys look' by (intro exI [of _ es']) simp
qed

lemma glob_match_iff: "glob_match name \<longleftrightarrow> (\<exists>x. name = ''tileset.'' @ x @ ''.json'')"
proof
  assume "glob_match name"
  then obtain r where r: "name = ''tileset.'' @ r" and s: "suffix ''.json'' r"
    by (auto simp: glob_match_def startswith_def endswith_def prefix_def)
  from s obtain x where "r = x @ ''.json''" by (auto simp: suffix_def)
  then show "\<exists>x. name = ''tileset.'' @ x @ ''.json''" using r by blast
next
  assume "\<exists>x. name = ''tileset.'' @ x @ ''.json''"
  then show "glob_match name"
    by (auto simp: glob_match_def startswith_def endswith_def suffix_def)
qed

section \<open>Pass B on the auxiliary manifests\<close>

text \<open>
  What "a file under \<^verbatim>\<open>points/\<close>" says of a stripped path, in the data model's words: the
  path is relative, none of its components climbs with \<^verbatim>\<open>..\<close>, and it names a regular
  file below \<^verbatim>\<open>points/\<close>.
\<close>

fun path_parts :: "string \<Rightarrow> string list" where
  "path_parts [] = [[]]"
| "path_parts (c # cs) =
     (if c = CHR ''/'' then [] # path_parts cs
      else (case path_parts cs of [] \<Rightarrow> [[c]] | x # xs \<Rightarrow> (c # x) # xs))"

definition stays_under_points :: "string \<Rightarrow> bool" where
  "stays_under_points p = (\<not> startswith p ''/'' \<and> ''..'' \<notin> set (path_parts p))"

definition file_under_points :: "tiles_dir \<Rightarrow> string \<Rightarrow> bool" where
  "file_under_points fs p =
     (stays_under_points p \<and> \<not> points_stat_error fs \<and>
      (case points fs of
         None \<Rightarrow> False
       | Some es \<Rightarrow> if CHR ''/'' \<in> set p then deep_file fs (''points/'' @ p)
                   else is_file (map_of es p)))"

lemma points_is_file_under:
  assumes "stays_under_points p"
  shows "points_is_file fs p = file_under_points fs p"
proof -
  have j: "points_join p = ''points/'' @ p"
    using assms by (simp add: stays_under_points_def points_join_def)
  show ?thesis
    unfolding points_is_file_def file_under_points_def j using assms by simp
qed

lemma points_is_file_test:
  assumes "points fs = Some es" and "\<not> points_stat_error fs"
  shows "points_is_file fs p
           = (if CHR ''/'' \<in> set p then deep_file fs (points_join p) else is_file (map_of es p))"
  using assms by (simp add: points_is_file_def)

text \<open>
  Claim C2, as amended. For every auxiliary manifest that Pass B processes (a listed file
  with a matching name, loadable and writable), a reference's uri is replaced by its
  suffix after the leading \<^verbatim>\<open>points/\<close> if and only if it starts with \<^verbatim>\<open>points/\<close> and the
  path that \<^verbatim>\<open>pathlib\<close> forms from the \<^verbatim>\<open>points/\<close> directory and the stripped suffix is a
  regular file; every other uri is left as it was. For a stripped suffix that is relative
  and has no \<^verbatim>\<open>..\<close> component this is a file under \<^verbatim>\<open>points/\<close>; an absolute suffix is
  tested as the absolute path it is, and one that climbs is tested where it leads. The
  pass returns the number of files in which a rewrite occurred and was written back. The
  listing has distinct names and \<^verbatim>\<open>points/\<close> can be inspected.
\<close>

theorem pass_b_strips_prefix:
  assumes "points fs = Some es" and "distinct (map fst es)" and "\<not> points_stat_error fs"
  shows "\<exists>es'.
           normalize_sub_tileset_uris_in_points fs
             = Inr (length (filter (\<lambda>(name, nd). glob_match name \<and> gets_rewritten fs nd) es),
                    fs\<lparr>points := Some es'\<rparr>)
         \<and> map fst es' = map fst es
         \<and> (\<forall>name data.
               glob_match name \<and> map_of es name = Some (File True True (Some data)) \<longrightarrow>
               (\<exists>data'. map_of es' name = Some (File True True (Some data'))
                       \<and> manifest_uris data' = map (pass_b_uri fs) (manifest_uris data)))
         \<and> (\<forall>u. pass_b_uri fs u \<noteq> u \<longleftrightarrow>
                  startswith u ''points/'' \<and> points_is_file fs (drop 7 u))
         \<and> (\<forall>u. pass_b_uri fs u \<noteq> u \<longrightarrow> ''points/'' @ pass_b_uri fs u = u)
         \<and> (\<forall>p. points_is_file fs p
                  = (if CHR ''/'' \<in> set p then deep_file fs (points_join p)
                     else is_file (map_of es p)))
         \<and> (\<forall>p. points_join p = (if startswith p ''/'' then p else ''points/'' @ p))
         \<and> (\<forall>p. stays_under_points p \<longrightarrow> points_is_file fs p = file_under_points fs p)"
proof -
  from pass_b_char [OF assms] obtain es' where
    run: "normalize_sub_tileset_uris_in_points fs
              = Inr (length (filter (\<lambda>(name, nd). glob_match name \<and> gets_rewritten fs nd) es),
                     fs\<lparr>points := Some es'\<rparr>)"
    and keys: "map fst es' = map fst es"
    and look: "\<forall>n. map_of es' n = (if glob_match n
                                    then fix_node (points_is_file fs) (map_of es n)
                                    else map_of es n)"
    by blast
  have files: "\<forall>name data.
               glob_match name \<and> map_of es name = Some (File True True (Some data)) \<longrightarrow>
               (\<exists>data'. map_of es' name = Some (File True True (Some data'))
                       \<and> manifest_uris data' = map (pass_b_uri fs) (manifest_uris data))"
    using look fix_node_file [of fs] by simp
  have strip: "''points/'' @ drop 7 u = u" if "startswith u ''points/''" for u
    using that by (auto simp: startswith_def prefix_def)
  have neq: "drop 7 u \<noteq> u" if "startswith u ''points/''" for u
    using strip [OF that] by (metis append_self_conv2 list.distinct(1))
  have uri: "\<forall>u. (pass_b_uri fs u \<noteq> u)
                 = (startswith u ''points/'' \<and> points_is_file fs (drop 7 u))"
    and undo: "\<forall>u. pass_b_uri fs u \<noteq> u \<longrightarrow> ''points/'' @ pass_b_uri fs u = u"
    using neq strip by (auto simp: pass_b_uri_def)
  have test: "\<forall>p. points_is_file fs p
                  = (if CHR ''/'' \<in> set p then deep_file fs (points_join p)
                     else is_file (map_of es p))"
    using points_is_file_test [OF assms(1,3)] by blast
  have jn: "\<forall>p. points_join p = (if startswith p ''/'' then p else ''points/'' @ p)"
    by (simp add: points_join_def)
  have under: "\<forall>p. stays_under_points p \<longrightarrow> points_is_file fs p = file_under_points fs p"
    using points_is_file_under by blast
  show ?thesis
    by (intro exI [of _ es'] conjI run keys files uri undo test jn under)
qed

text \<open>
  Claim C7, as amended. Pass B loads and rewrites exactly the files directly under
  \<^verbatim>\<open>points/\<close> whose name is \<^verbatim>\<open>tileset.\<close>, then any characters, then \<^verbatim>\<open>.json\<close> (the glob
  \<^verbatim>\<open>tileset.*.json\<close>): what stands between the two dots need not be an integer. A file
  whose name does not match the glob is left as it was.
\<close>

theorem pass_b_processes_glob_matches:
  assumes "points fs = Some es" and "distinct (map fst es)" and "\<not> points_stat_error fs"
  shows "\<exists>n es'.
           normalize_sub_tileset_uris_in_points fs = Inr (n, fs\<lparr>points := Some es'\<rparr>)
         \<and> (\<forall>name. \<not> glob_match name \<longrightarrow> map_of es' name = map_of es name)
         \<and> (\<forall>name data.
               glob_match name \<and> map_of es name = Some (File True True (Some data)) \<longrightarrow>
               (\<exists>data'. map_of es' name = Some (File True True (Some data'))
                       \<and> manifest_uris data' = map (pass_b_uri fs) (manifest_uris data)))
         \<and> (\<forall>name. glob_match name \<longleftrightarrow> (\<exists>x. name = ''tileset.'' @ x @ ''.json''))"
proof -
  from pass_b_char [OF assms] obtain es' where
    run: "normalize_sub_tileset_uris_in_points fs
              = Inr (length (filter (\<lambda>(name, nd). glob_match name \<and> gets_rewritten fs nd) es),
                     fs\<lparr>points := Some es'\<rparr>)"
    and look: "\<forall>n. map_of es' n = (if glob_match n
                                    then fix_node (points_is_file fs) (map_of es n)
                                    else map_of es n)"
    by blast
  have files: "\<exists>data'. map_of es' name = Some (File True True (Some data'))
                       \<and> manifest_uris data' = map (pass_b_uri fs) (manifest_uris data)"
    if "glob_match name \<and> map_of es name = Some (File True True (Some data))" for name data
    using that look fix_node_file [of fs data] by simp
  have rest: "\<forall>name. \<not> glob_match name \<longrightarrow> map_of es' name = map_of es name"
    using look by simp
  show ?thesis
    using run rest files glob_match_iff by blast
qed

text \<open>
  Claim C8. When one file under \<^verbatim>\<open>points/\<close> holds malformed JSON, Pass B leaves that
  file alone, still processes every other file, and returns (it does not raise) the
  number of files modified among the others.
\<close>

theorem pass_b_skips_malformed:
  assumes "points fs = Some es" and "distinct (map fst es)" and "\<not> points_stat_error fs"
    and "map_of es bad = Some (File r w None)"
  shows "\<exists>es'.
           normalize_sub_tileset_uris_in_points fs
             = Inr (length (filter (\<lambda>(name, nd). name \<noteq> bad \<and> glob_match name
                                                  \<and> gets_rewritten fs nd) es),
                    fs\<lparr>points := Some es'\<rparr>)
         \<and> map_of es' bad = map_of es bad
         \<and> (\<forall>name data.
               name \<noteq> bad \<and> glob_match name
               \<and> map_of es name = Some (File True True (Some data)) \<longrightarrow>
               (\<exists>data'. map_of es' name = Some (File True True (Some data'))
                       \<and> manifest_uris data' = map (pass_b_uri fs) (manifest_uris data)))"
proof -
  from pass_b_char [OF assms(1-3)] obtain es' where
    run: "normalize_sub_tileset_uris_in_points fs
              = Inr (length (filter (\<lambda>(name, nd). glob_match name \<and> gets_rewritten fs nd) es),
                     fs\<lparr>points := Some es'\<rparr>)"
    and look: "\<forall>n. map_of es' n = (if glob_match n
                                    then fix_node (points_is_file fs) (map_of es n)
                                    else map_of es n)"
    by blast
  have files: "\<exists>data'. map_of es' name = Some (File True True (Some data'))
                       \<and> manifest_uris data' = map (pass_b_uri fs) (manifest_uris data)"
    if "name \<noteq> bad \<and> glob_match name \<and> map_of es name = Some (File True True (Some data))"
    for name data
    using that look fix_node_file [of fs data] by simp
  have bad: "map_of es' bad = map_of es bad"
    using look assms(4) by (simp add: fix_node_malformed)
  have "filter (\<lambda>(name, nd). glob_match name \<and> gets_rewritten fs nd) es
      = filter (\<lambda>(name, nd). name \<noteq> bad \<and> glob_match name \<and> gets_rewritten fs nd) es"
  proof (rule filter_cong [OF refl])
    fix e assume e: "e \<in> set es"
    obtain name nd where p: "e = (name, nd)" by (cases e)
    have m: "map_of es name = Some nd" using assms(2) e p by simp
    have "\<not> gets_rewritten fs nd" if "name = bad"
      using that m assms(4) by (auto simp: gets_rewritten_def)
    then show "(case e of (name, nd) \<Rightarrow> glob_match name \<and> gets_rewritten fs nd)
             = (case e of (name, nd) \<Rightarrow> name \<noteq> bad \<and> glob_match name \<and> gets_rewritten fs nd)"
      by (auto simp: p)
  qed
  then show ?thesis
    using run bad files by (intro exI [of _ es']) simp
qed

subsection \<open>A directory with one repairable, one malformed and one unrelated file\<close>

definition doc_b :: json where
  "doc_b = JObj [(''root'', JObj [(''content'', JObj [(''uri'', JStr ''points/tile_7.pnts'')]),
                                  (''contents'', JArr [JObj [(''uri'', JStr ''points/missing.pnts'')]])])]"

definition doc_b_fixed :: json where
  "doc_b_fixed = JObj [(''root'', JObj [(''content'', JObj [(''uri'', JStr ''tile_7.pnts'')]),
                                  (''contents'', JArr [JObj [(''uri'', JStr ''points/missing.pnts'')]])])]"

definition es_b :: "(string \<times> node) list" where
  "es_b = [(''tileset.1.json'', File True True (Some doc_b)),
           (''tile_7.pnts'', File True True None),
           (''tileset.2.json'', File True True None),
           (''notes.json'', File True True (Some doc_b))]"

definition dir_b :: tiles_dir where
  "dir_b = \<lparr>main_tileset = None, points = Some es_b, deep_file = (\<lambda>p. False),
            points_stat_error = False, tiles_log = None\<rparr>"

definition dir_abc :: tiles_dir where
  "dir_abc = \<lparr>main_tileset = None,
              points = Some [(''tileset.abc.json'', File True True (Some doc_b)),
                             (''tile_7.pnts'', File True True None)],
              deep_file = (\<lambda>p. False), points_stat_error = False, tiles_log = None\<rparr>"

lemma doc_b_uris: "manifest_uris doc_b = [''points/tile_7.pnts'', ''points/missing.pnts'']"
  by (simp add: doc_b_def manifest_uris_def ref_uri_def)

lemma dir_b_files:
  "points_is_file dir_b ''tile_7.pnts''" "\<not> points_is_file dir_b ''missing.pnts''"
  by (simp_all add: points_is_file_def dir_b_def es_b_def)

lemma dir_b_uri:
  "pass_b_uri dir_b ''points/tile_7.pnts'' = ''tile_7.pnts''"
  "pass_b_uri dir_b ''points/missing.pnts'' = ''points/missing.pnts''"
  by (simp_all add: pass_b_uri_def startswith_def dir_b_files)

lemma glob_examples:
  "glob_match ''tileset.1.json''" "glob_match ''tileset.2.json''"
  "glob_match ''tileset.abc.json''"
  "\<not> glob_match ''tile_7.pnts''" "\<not> glob_match ''notes.json''" "\<not> glob_match ''tileset.json''"
  by (simp_all add: glob_match_def startswith_def endswith_def suffix_to_prefix)

lemma dir_b_hyps:
  "points dir_b = Some es_b" "distinct (map fst es_b)" "\<not> points_stat_error dir_b"
  by (simp_all add: dir_b_def es_b_def)

lemma dir_b_rewritten:
  "gets_rewritten dir_b (File True True (Some doc_b))"
  "\<not> gets_rewritten dir_b (File True True None)"
  by (simp_all add: gets_rewritten_def doc_b_uris startswith_def dir_b_files)

lemma dir_b_count:
  "length (filter (\<lambda>(name, nd). glob_match name \<and> gets_rewritten dir_b nd) es_b) = 1"
  by (simp add: es_b_def glob_examples dir_b_rewritten)

theorem pass_b_strips_prefix_witness:
  "points dir_b = Some es_b \<and> distinct (map fst es_b) \<and> \<not> points_stat_error dir_b
   \<and> (\<exists>es'. normalize_sub_tileset_uris_in_points dir_b = Inr (1, dir_b\<lparr>points := Some es'\<rparr>)
            \<and> (\<exists>data'. map_of es' ''tileset.1.json'' = Some (File True True (Some data'))
                  \<and> manifest_uris data' = [''tile_7.pnts'', ''points/missing.pnts'']))"
proof -
  from pass_b_strips_prefix [OF dir_b_hyps] obtain es' where
    run: "normalize_sub_tileset_uris_in_points dir_b
             = Inr (length (filter (\<lambda>(name, nd). glob_match name \<and> gets_rewritten dir_b nd) es_b),
                    dir_b\<lparr>points := Some es'\<rparr>)"
    and files: "\<forall>name data.
               glob_match name \<and> map_of es_b name = Some (File True True (Some data)) \<longrightarrow>
               (\<exists>data'. map_of es' name = Some (File True True (Some data'))
                       \<and> manifest_uris data' = map (pass_b_uri dir_b) (manifest_uris data))"
    by blast
  have "glob_match ''tileset.1.json''
        \<and> map_of es_b ''tileset.1.json'' = Some (File True True (Some doc_b))"
    by (simp add: glob_examples es_b_def)
  from files [rule_format, OF this] obtain data' where
    m: "map_of es' ''tileset.1.json'' = Some (File True True (Some data'))"
    and u: "manifest_uris data' = map (pass_b_uri dir_b) (manifest_uris doc_b)"
    by blast
  have r1: "normalize_sub_tileset_uris_in_points dir_b = Inr (1, dir_b\<lparr>points := Some es'\<rparr>)"
    by (simp only: run dir_b_count)
  have u1: "manifest_uris data' = [''tile_7.pnts'', ''points/missing.pnts'']"
    by (simp add: u doc_b_uris dir_b_uri)
  show ?thesis
    using dir_b_hyps r1 m u1 by blast
qed

theorem pass_b_processes_glob_matches_witness:
  "points dir_b = Some es_b \<and> distinct (map fst es_b) \<and> \<not> points_stat_error dir_b
   \<and> (\<exists>n es'. normalize_sub_tileset_uris_in_points dir_b = Inr (n, dir_b\<lparr>points := Some es'\<rparr>)
            \<and> map_of es' ''notes.json'' = Some (File True True (Some doc_b))
            \<and> (\<exists>data'. map_of es' ''tileset.1.json'' = Some (File True True (Some data'))
                  \<and> manifest_uris data' = [''tile_7.pnts'', ''points/missing.pnts'']))"
proof -
  from pass_b_processes_glob_matches [OF dir_b_hyps] obtain n es' where
    run: "normalize_sub_tileset_uris_in_points dir_b = Inr (n, dir_b\<lparr>points := Some es'\<rparr>)"
    and rest: "\<forall>name. \<not> glob_match name \<longrightarrow> map_of es' name = map_of es_b name"
    and files: "\<forall>name data.
               glob_match name \<and> map_of es_b name = Some (File True True (Some data)) \<longrightarrow>
               (\<exists>data'. map_of es' name = Some (File True True (Some data'))
                       \<and> manifest_uris data' = map (pass_b_uri dir_b) (manifest_uris data))"
    by blast
  have "glob_match ''tileset.1.json''
        \<and> map_of es_b ''tileset.1.json'' = Some (File True True (Some doc_b))"
    by (simp add: glob_examples es_b_def)
  from files [rule_format, OF this] obtain data' where
    m: "map_of es' ''tileset.1.json'' = Some (File True True (Some data'))"
    and u: "manifest_uris data' = map (pass_b_uri dir_b) (manifest_uris doc_b)"
    by blast
  have n: "map_of es' ''notes.json'' = Some (File True True (Some doc_b))"
    using rest glob_examples by (simp add: es_b_def)
  have u1: "manifest_uris data' = [''tile_7.pnts'', ''points/missing.pnts'']"
    by (simp add: u doc_b_uris dir_b_uri)
  show ?thesis
    using dir_b_hyps run n m u1 by blast
qed

theorem pass_b_skips_malformed_witness:
  "points dir_b = Some es_b \<and> distinct (map fst es_b) \<and> \<not> points_stat_error dir_b
   \<and> map_of es_b ''tileset.2.json'' = Some (File True True None)
   \<and> (\<exists>es'. normalize_sub_tileset_uris_in_points dir_b = Inr (1, dir_b\<lparr>points := Some es'\<rparr>)
            \<and> map_of es' ''tileset.2.json'' = Some (File True True None)
            \<and> (\<exists>data'. map_of es' ''tileset.1.json'' = Some (File True True (Some data'))
                  \<and> manifest_uris data' = [''tile_7.pnts'', ''points/missing.pnts'']))"
proof -
  have bad: "map_of es_b ''tileset.2.json'' = Some (File True True None)"
    by (simp add: es_b_def)
  from pass_b_skips_malformed [OF dir_b_hyps bad] obtain es' where
    run: "normalize_sub_tileset_uris_in_points dir_b
             = Inr (length (filter (\<lambda>(name, nd). name \<noteq> ''tileset.2.json'' \<and> glob_match name
                                                  \<and> gets_rewritten dir_b nd) es_b),
                    dir_b\<lparr>points := Some es'\<rparr>)"
    and same: "map_of es' ''tileset.2.json'' = map_of es_b ''tileset.2.json''"
    and files: "\<forall>name data.
               name \<noteq> ''tileset.2.json'' \<and> glob_match name
               \<and> map_of es_b name = Some (File True True (Some data)) \<longrightarrow>
               (\<exists>data'. map_of es' name = Some (File True True (Some data'))
                       \<and> manifest_uris data' = map (pass_b_uri dir_b) (manifest_uris data))"
    by blast
  have cnt: "length (filter (\<lambda>(name, nd). name \<noteq> ''tileset.2.json'' \<and> glob_match name
                                                  \<and> gets_rewritten dir_b nd) es_b) = 1"
    by (simp add: es_b_def glob_examples dir_b_rewritten)
  have "''tileset.1.json'' \<noteq> ''tileset.2.json'' \<and> glob_match ''tileset.1.json''
        \<and> map_of es_b ''tileset.1.json'' = Some (File True True (Some doc_b))"
    by (simp add: glob_examples es_b_def)
  from files [rule_format, OF this] obtain data' where
    m: "map_of es' ''tileset.1.json'' = Some (File True True (Some data'))"
    and u: "manifest_uris data' = map (pass_b_uri dir_b) (manifest_uris doc_b)"
    by blast
  have r1: "normalize_sub_tileset_uris_in_points dir_b = Inr (1, dir_b\<lparr>points := Some es'\<rparr>)"
    by (simp only: run cnt)
  have u1: "manifest_uris data' = [''tile_7.pnts'', ''points/missing.pnts'']"
    by (simp add: u doc_b_uris dir_b_uri)
  have s1: "map_of es' ''tileset.2.json'' = Some (File True True None)"
    using same bad by simp
  show ?thesis
    using dir_b_hyps bad r1 s1 m u1 by blast
qed

lemma dir_abc_files:
  "points_is_file dir_abc ''tile_7.pnts''" "\<not> points_is_file dir_abc ''missing.pnts''"
  by (simp_all add: points_is_file_def dir_abc_def)

lemma maybe_fix_examples:
  "maybe_fix (points_is_file dir_abc) (JObj [(''uri'', JStr ''points/tile_7.pnts'')])
     = (JObj [(''uri'', JStr ''tile_7.pnts'')], True)"
  "maybe_fix (points_is_file dir_abc) (JObj [(''uri'', JStr ''points/missing.pnts'')])
     = (JObj [(''uri'', JStr ''points/missing.pnts'')], False)"
  by (simp_all add: maybe_fix_def startswith_def dir_abc_files)

lemma fix_doc_b:
  "fix_uris_in_data (points_is_file dir_abc) doc_b = (doc_b_fixed, True)"
  by (simp add: fix_uris_in_data_def walk_root_def doc_b_def doc_b_fixed_def
                fix_content_def fix_contents_def each_dict_def maybe_fix_examples)

text \<open>
  Against claim C7 as stated: a file named \<^verbatim>\<open>tileset.abc.json\<close> is loaded, rewritten and
  counted.
\<close>

theorem pass_b_integer_only_counterexample:
  "normalize_sub_tileset_uris_in_points dir_abc
     = Inr (1, dir_abc\<lparr>points := Some [(''tileset.abc.json'', File True True (Some doc_b_fixed)),
                                        (''tile_7.pnts'', File True True None)]\<rparr>)"
proof -
  have p: "points dir_abc = Some [(''tileset.abc.json'', File True True (Some doc_b)),
                             (''tile_7.pnts'', File True True None)]"
    "\<not> points_stat_error dir_abc"
    by (simp_all add: dir_abc_def)
  show ?thesis
    by (simp add: normalize_sub_tileset_uris_in_points_def p glob_examples
                  read_points_json_def write_points_json_def fix_doc_b)
qed

text \<open>
  Against claim C2 as stated: no file \<^verbatim>\<open>/etc/hostname\<close> or \<^verbatim>\<open>../tileset.json\<close> exists
  under \<^verbatim>\<open>points/\<close>, yet \<^verbatim>\<open>points//etc/hostname\<close> is rewritten to \<^verbatim>\<open>/etc/hostname\<close>,
  because that absolute path is a file, and \<^verbatim>\<open>points/../tileset.json\<close> to
  \<^verbatim>\<open>../tileset.json\<close>, because the root manifest beside \<^verbatim>\<open>points/\<close> is one.
\<close>

definition doc_out :: json where
  "doc_out = JObj [(''root'', JObj [(''content'', JObj [(''uri'', JStr ''points//etc/hostname'')]),
                     (''contents'', JArr [JObj [(''uri'', JStr ''points/../tileset.json'')]])])]"

definition doc_out_fixed :: json where
  "doc_out_fixed = JObj [(''root'', JObj [(''content'', JObj [(''uri'', JStr ''/etc/hostname'')]),
                     (''contents'', JArr [JObj [(''uri'', JStr ''../tileset.json'')]])])]"

definition dir_out :: tiles_dir where
  "dir_out = \<lparr>main_tileset = Some (File True True None),
              points = Some [(''tileset.1.json'', File True True (Some doc_out))],
              deep_file = (\<lambda>q. q = ''/etc/hostname'' \<or> q = ''points/../tileset.json''),
              points_stat_error = False, tiles_log = None\<rparr>"

lemma dir_out_files:
  "points_is_file dir_out ''/etc/hostname''" "points_is_file dir_out ''../tileset.json''"
  by (simp_all add: points_is_file_def points_join_def startswith_def dir_out_def)

lemma dir_out_not_under:
  "\<not> file_under_points dir_out ''/etc/hostname''"
  "\<not> file_under_points dir_out ''../tileset.json''"
  by (simp_all add: file_under_points_def stays_under_points_def startswith_def)

lemma fix_doc_out:
  "fix_uris_in_data (points_is_file dir_out) doc_out = (doc_out_fixed, True)"
proof -
  have "maybe_fix (points_is_file dir_out) (JObj [(''uri'', JStr ''points//etc/hostname'')])
     = (JObj [(''uri'', JStr ''/etc/hostname'')], True)"
  "maybe_fix (points_is_file dir_out) (JObj [(''uri'', JStr ''points/../tileset.json'')])
     = (JObj [(''uri'', JStr ''../tileset.json'')], True)"
    by (simp_all add: maybe_fix_def startswith_def dir_out_files)
  then show ?thesis
    by (simp add: fix_uris_in_data_def walk_root_def doc_out_def doc_out_fixed_def
                fix_content_def fix_contents_def each_dict_def)
qed

theorem pass_b_outside_points_counterexample:
  "normalize_sub_tileset_uris_in_points dir_out
     = Inr (1, dir_out\<lparr>points := Some [(''tileset.1.json'',
                                          File True True (Some doc_out_fixed))]\<rparr>)
   \<and> \<not> file_under_points dir_out ''/etc/hostname''
   \<and> \<not> file_under_points dir_out ''../tileset.json''"
proof -
  have p: "points dir_out = Some [(''tileset.1.json'', File True True (Some doc_out))]"
    "\<not> points_stat_error dir_out"
    by (simp_all add: dir_out_def)
  have "normalize_sub_tileset_uris_in_points dir_out
     = Inr (1, dir_out\<lparr>points := Some [(''tileset.1.json'',
                                          File True True (Some doc_out_fixed))]\<rparr>)"
    by (simp add: normalize_sub_tileset_uris_in_points_def p glob_examples
                  read_points_json_def write_points_json_def fix_doc_out)
  then show ?thesis using dir_out_not_under by simp
qed

section \<open>Running a repair pass twice\<close>

lemma pass_a_false:
  "\<not> fst (rewrite_child_tileset_uris_if_needed fs) \<Longrightarrow>
   rewrite_child_tileset_uris_if_needed fs = (False, fs)"
  by (auto simp: rewrite_child_tileset_uris_if_needed_def
           split: option.splits prod.splits if_splits)

lemma read_json_SomeD: "read_json x = Some d \<Longrightarrow> \<exists>w. x = Some (File True w (Some d))"
  by (cases x rule: read_json.cases) auto

lemma write_json_SomeD:
  "write_json x d = Some n' \<Longrightarrow> \<exists>r b. x = Some (File r True b) \<and> n' = File r True (Some d)"
  by (cases "(x, d)" rule: write_json.cases) auto

lemma pass_a_true:
  assumes "fst (rewrite_child_tileset_uris_if_needed fs)"
  shows "\<exists>data data'. main_tileset fs = Some (File True True (Some data))
           \<and> walk_root (maybe_fix_uri (points_is_file fs)) data = Some (data', True)
           \<and> rewrite_child_tileset_uris_if_needed fs
               = (True, fs\<lparr>main_tileset := Some (File True True (Some data'))\<rparr>)"
proof -
  obtain n where n: "main_tileset fs = Some n"
    using assms by (auto simp: rewrite_child_tileset_uris_if_needed_def split: option.splits)
  obtain data where rd: "read_json (Some n) = Some data"
    using assms n by (auto simp: rewrite_child_tileset_uris_if_needed_def split: option.splits)
  obtain data' m where wk: "walk_root (maybe_fix_uri (points_is_file fs)) data = Some (data', m)"
    using assms n rd
    by (auto simp: rewrite_child_tileset_uris_if_needed_def split: option.splits)
  have m: "m" using assms n rd wk
    by (auto simp: rewrite_child_tileset_uris_if_needed_def split: if_splits)
  obtain n' where wr: "write_json (Some n) data' = Some n'"
    using assms n rd wk m
    by (auto simp: rewrite_child_tileset_uris_if_needed_def split: option.splits)
  from read_json_SomeD [OF rd] write_json_SomeD [OF wr]
  have shape: "n = File True True (Some data)" "n' = File True True (Some data')" by auto
  have "rewrite_child_tileset_uris_if_needed fs = (True, fs\<lparr>main_tileset := Some n'\<rparr>)"
    using n rd wk m wr by (simp add: rewrite_child_tileset_uris_if_needed_def)
  then show ?thesis using n wk m shape by auto
qed




















section \<open>The conversion as a whole\<close>


lemma pass_a_keeps_main_some:
  "main_tileset fs \<noteq> None \<Longrightarrow>
   main_tileset (snd (rewrite_child_tileset_uris_if_needed fs)) \<noteq> None"
  by (cases "fst (rewrite_child_tileset_uris_if_needed fs)")
     (use pass_a_true [of fs] pass_a_false [of fs] in auto)



lemma convert_unresolved:
  assumes "resolve_py3dtiles_executable w = Inl e"
  shows "convert_las_to_3dtiles eng rq w
           = (Inl e, w\<lparr>out_dir := Some (prepare_output (overwrite rq) (out_dir w))\<rparr>)"
  using assms by (simp add: convert_las_to_3dtiles_def Let_def)

text \<open>The command line of a conversion, as lines 266 to 290 build it from the request and
  from what was found out about the input.\<close>

definition conversion_cmd :: "string \<Rightarrow> request \<Rightarrow> world \<Rightarrow> string list" where
  "conversion_cmd exe rq w =
     build_cmd exe (output_dir rq) (laspy_has_crs w (prepare_input w rq)) (srs_out rq)
       (extra_fields rq) (prepare_input w rq)"

lemma convert_resolved:
  assumes "resolve_py3dtiles_executable w = Inr exe"
    and "eng (conversion_cmd exe rq w) (prepare_output (overwrite rq) (out_dir w))
           = ((rc, raw), d1)"
  shows "convert_las_to_3dtiles eng rq w =
     (case decode_output w raw of
        None \<Rightarrow>
          (Inl UnicodeDecodeError,
           w\<lparr>engine_calls := engine_calls w @ [conversion_cmd exe rq w], out_dir := Some d1\<rparr>)
      | Some txt \<Rightarrow>
          (if rc \<noteq> 0
           then (Inl (RuntimeError (''tiles conversion (py3dtiles) failed with exit code ''
                                    @ str_int rc @ ''; see tiles_log.txt'')),
                 w\<lparr>engine_calls := engine_calls w @ [conversion_cmd exe rq w],
                   out_dir := Some (d1\<lparr>tiles_log := Some (universal_newlines txt)\<rparr>)\<rparr>)
           else if main_tileset d1 = None
           then (Inl (RuntimeError ''tiles conversion did not produce tileset.json''),
                 w\<lparr>engine_calls := engine_calls w @ [conversion_cmd exe rq w],
                   out_dir := Some (d1\<lparr>tiles_log := Some (universal_newlines txt)\<rparr>)\<rparr>)
           else (Inr (path_join (output_dir rq) ''tileset.json''),
                 w\<lparr>engine_calls := engine_calls w @ [conversion_cmd exe rq w],
                   out_dir := Some (post_process
                                      (d1\<lparr>tiles_log := Some (universal_newlines txt)\<rparr>))\<rparr>)))"
  using assms
  by (auto simp: convert_las_to_3dtiles_def subprocess_run_def conversion_cmd_def Let_def
           split: option.split)

lemma convert_calls_engine_once:
  assumes "resolve_py3dtiles_executable w = Inr exe"
  shows "engine_calls (snd (convert_las_to_3dtiles eng rq w))
           = engine_calls w @ [conversion_cmd exe rq w]"
proof -
  obtain rc raw d1 where
    e: "eng (conversion_cmd exe rq w) (prepare_output (overwrite rq) (out_dir w))
          = ((rc, raw), d1)"
    by (metis surj_pair)
  show ?thesis
    unfolding convert_resolved [where eng = eng and rq = rq and w = w, OF assms e]
    by (simp split: option.split)
qed

lemma convert_depends_on_engine_at_cmd:
  assumes "resolve_py3dtiles_executable w = Inr exe"
    and "eng' (conversion_cmd exe rq w) (prepare_output (overwrite rq) (out_dir w))
           = eng (conversion_cmd exe rq w) (prepare_output (overwrite rq) (out_dir w))"
  shows "convert_las_to_3dtiles eng' rq w = convert_las_to_3dtiles eng rq w"
proof -
  obtain rc raw d1 where
    e: "eng (conversion_cmd exe rq w) (prepare_output (overwrite rq) (out_dir w))
          = ((rc, raw), d1)"
    by (metis surj_pair)
  have e': "eng' (conversion_cmd exe rq w) (prepare_output (overwrite rq) (out_dir w))
          = ((rc, raw), d1)"
    using assms(2) e by simp
  show ?thesis
    unfolding convert_resolved [where eng = eng and rq = rq and w = w, OF assms(1) e]
              convert_resolved [where eng = eng' and rq = rq and w = w, OF assms(1) e']
    by (rule refl)
qed

lemma resolve_fails_iff:
  "(\<exists>e. resolve_py3dtiles_executable w = Inl e)
   \<longleftrightarrow> exe_beside_interpreter w = None \<and> \<not> truthy (which_py3dtiles w)"
  by (cases "which_py3dtiles w")
     (auto simp: resolve_py3dtiles_executable_def split: option.splits)

lemma resolve_error:
  "resolve_py3dtiles_executable w = Inl e \<Longrightarrow>
   e = RuntimeError ''py3dtiles not found in venv or PATH''"
  by (auto simp: resolve_py3dtiles_executable_def split: option.splits if_splits)

text \<open>
  Claim C4, as amended. When the engine executable is neither beside the interpreter nor
  on the search path, the conversion fails with the tool-not-found error before the engine
  is run and before any log or manifest is written. By then the output directory has been
  set up: created empty if it was missing, left as it was if it existed, and removed and
  recreated empty when \<^verbatim>\<open>overwrite\<close> was requested.
\<close>

theorem tool_not_found_after_directory_setup:
  assumes "exe_beside_interpreter w = None" and "\<not> truthy (which_py3dtiles w)"
  shows "convert_las_to_3dtiles eng rq w
           = (Inl (RuntimeError ''py3dtiles not found in venv or PATH''),
              w\<lparr>out_dir := Some (if overwrite rq then empty_dir
                                   else (case out_dir w of None \<Rightarrow> empty_dir | Some d \<Rightarrow> d))\<rparr>)
         \<and> main_tileset empty_dir = None \<and> points empty_dir = None
         \<and> tiles_log empty_dir = None"
proof -
  from assms resolve_fails_iff [of w] obtain e where e: "resolve_py3dtiles_executable w = Inl e"
    by blast
  have p: "prepare_output (overwrite rq) (out_dir w)
             = (if overwrite rq then empty_dir
                else (case out_dir w of None \<Rightarrow> empty_dir | Some d \<Rightarrow> d))"
    by (cases "out_dir w") (simp_all add: prepare_output_def)
  show ?thesis
    using convert_unresolved [OF e, of eng rq] resolve_error [OF e]
    by (simp add: p empty_dir_def)
qed


text \<open>
  Claim C9. When the engine exits with zero, its output decodes (so that the run gets as
  far as the repair stage) and the root manifest exists, the conversion returns the path
  of the root manifest whatever happens in the repair stage; if Pass B raises, the
  directory is left as Pass A left it.
\<close>

theorem repair_failures_are_swallowed:
  assumes "resolve_py3dtiles_executable w = Inr exe"
    and "eng (conversion_cmd exe rq w) (prepare_output (overwrite rq) (out_dir w))
           = ((0, raw), d1)"
    and "decode_output w raw = Some txt"
    and "main_tileset d1 \<noteq> None"
  shows "fst (convert_las_to_3dtiles eng rq w) = Inr (path_join (output_dir rq) ''tileset.json'')
       \<and> (\<forall>e. normalize_sub_tileset_uris_in_points
                  (snd (rewrite_child_tileset_uris_if_needed
                          (d1\<lparr>tiles_log := Some (universal_newlines txt)\<rparr>))) = Inl e
              \<longrightarrow> out_dir (snd (convert_las_to_3dtiles eng rq w))
                    = Some (snd (rewrite_child_tileset_uris_if_needed
                                   (d1\<lparr>tiles_log := Some (universal_newlines txt)\<rparr>))))"
  unfolding convert_resolved [where eng = eng and rq = rq and w = w, OF assms(1,2)]
  using assms(3,4)
  by (auto simp: post_process_def split: prod.splits)

lemma flags_absent_or_present:
  assumes "''--srs_out'' \<notin> {exe, out, inp} \<union> set_option extra"
    and "''--pyproj-always-xy'' \<notin> {exe, out, inp} \<union> set_option extra"
  shows "(''--srs_out'' \<in> set (build_cmd exe out has_crs srs extra inp)
           \<longleftrightarrow> has_crs \<and> truthy srs)
        \<and> (''--pyproj-always-xy'' \<in> set (build_cmd exe out has_crs srs extra inp)
           \<longleftrightarrow> has_crs \<and> truthy srs)"
proof (cases srs)
  case None
  note s = this
  show ?thesis
  proof (cases extra)
    case None
    show ?thesis using assms unfolding s None build_cmd_def truthy.simps option.case by auto
  next
    case (Some a)
    show ?thesis using assms unfolding s Some build_cmd_def truthy.simps option.case by auto
  qed
next
  case (Some v)
  note s = this
  show ?thesis
  proof (cases extra)
    case None
    show ?thesis using assms unfolding s None build_cmd_def truthy.simps option.case by auto
  next
    case (Some a)
    show ?thesis using assms unfolding s Some build_cmd_def truthy.simps option.case by auto
  qed
qed

lemma build_cmd_transform_flags:
  "(has_crs \<and> truthy srs
      \<longleftrightarrow> (\<exists>v. take 3 (drop 4 (build_cmd exe out has_crs srs extra inp))
                   = [''--srs_out'', v, ''--pyproj-always-xy'']))
   \<and> (\<forall>v. has_crs \<and> srs = Some v \<and> v \<noteq> [] \<longrightarrow>
        take 3 (drop 4 (build_cmd exe out has_crs srs extra inp))
          = [''--srs_out'', v, ''--pyproj-always-xy''])
   \<and> (\<not> has_crs \<longrightarrow>
        build_cmd exe out has_crs srs extra inp = build_cmd exe out False None extra inp)"
proof -
  have a: "has_crs \<and> truthy srs
      \<longleftrightarrow> (\<exists>v. take 3 (drop 4 (build_cmd exe out has_crs srs extra inp))
                   = [''--srs_out'', v, ''--pyproj-always-xy''])"
    by (cases srs; cases extra) (auto simp: build_cmd_def)
  have b: "\<forall>v. has_crs \<and> srs = Some v \<and> v \<noteq> [] \<longrightarrow>
        take 3 (drop 4 (build_cmd exe out has_crs srs extra inp))
          = [''--srs_out'', v, ''--pyproj-always-xy'']"
    by (auto simp: build_cmd_def)
  have c: "\<not> has_crs \<longrightarrow>
        build_cmd exe out has_crs srs extra inp = build_cmd exe out False None extra inp"
    by (simp add: build_cmd_def)
  show ?thesis using a b c by blast
qed

text \<open>
  Claim C5. For every conversion request that gets as far as running the engine, the
  command line the conversion hands to the engine carries the coordinate-transform flag
  with the requested CRS value, followed by the axis-order flag, exactly when CRS metadata
  was detected in the prepared input and the request asks for a non-empty output CRS; the
  three stand right after the output directory argument. Without detected metadata the
  command line is the one built for no output CRS at all, whatever the request asks for.
  When no path or field list handed in spells one of the two flags, each flag occurs in
  the command line exactly under that condition. The engine is run once, with this
  command line, and the conversion depends on the engine only through that run.
\<close>

theorem conversion_command_has_transform_flags_iff:
  assumes "resolve_py3dtiles_executable w = Inr exe"
  shows "\<exists>cmd.
       engine_calls (snd (convert_las_to_3dtiles eng rq w)) = engine_calls w @ [cmd]
     \<and> (\<forall>eng'. eng' cmd (prepare_output (overwrite rq) (out_dir w))
                   = eng cmd (prepare_output (overwrite rq) (out_dir w))
               \<longrightarrow> convert_las_to_3dtiles eng' rq w = convert_las_to_3dtiles eng rq w)
     \<and> take 4 cmd = [exe, ''convert'', ''--out'', output_dir rq]
     \<and> (laspy_has_crs w (prepare_input w rq) \<and> truthy (srs_out rq)
          \<longleftrightarrow> (\<exists>v. take 3 (drop 4 cmd) = [''--srs_out'', v, ''--pyproj-always-xy'']))
     \<and> (\<forall>v. laspy_has_crs w (prepare_input w rq) \<and> srs_out rq = Some v \<and> v \<noteq> [] \<longrightarrow>
            take 3 (drop 4 cmd) = [''--srs_out'', v, ''--pyproj-always-xy''])
     \<and> (\<not> laspy_has_crs w (prepare_input w rq) \<longrightarrow>
            cmd = build_cmd exe (output_dir rq) False None (extra_fields rq)
                    (prepare_input w rq))
     \<and> (''--srs_out'' \<notin> {exe, output_dir rq, prepare_input w rq} \<union> set_option (extra_fields rq)
         \<and> ''--pyproj-always-xy'' \<notin> {exe, output_dir rq, prepare_input w rq}
                                      \<union> set_option (extra_fields rq) \<longrightarrow>
          (''--srs_out'' \<in> set cmd
             \<longleftrightarrow> laspy_has_crs w (prepare_input w rq) \<and> truthy (srs_out rq))
          \<and> (''--pyproj-always-xy'' \<in> set cmd
             \<longleftrightarrow> laspy_has_crs w (prepare_input w rq) \<and> truthy (srs_out rq)))"
proof -
  let ?cmd = "conversion_cmd exe rq w"
  have calls: "engine_calls (snd (convert_las_to_3dtiles eng rq w)) = engine_calls w @ [?cmd]"
    by (rule convert_calls_engine_once [OF assms])
  have dep: "\<forall>eng'. eng' ?cmd (prepare_output (overwrite rq) (out_dir w))
                   = eng ?cmd (prepare_output (overwrite rq) (out_dir w))
               \<longrightarrow> convert_las_to_3dtiles eng' rq w = convert_las_to_3dtiles eng rq w"
    using convert_depends_on_engine_at_cmd [OF assms] by blast
  have head: "take 4 ?cmd = [exe, ''convert'', ''--out'', output_dir rq]"
    by (simp add: conversion_cmd_def build_cmd_def)
  note flags = build_cmd_transform_flags
                 [of "laspy_has_crs w (prepare_input w rq)" "srs_out rq" exe "output_dir rq"
                     "extra_fields rq" "prepare_input w rq", folded conversion_cmd_def]
  have mem: "''--srs_out'' \<notin> {exe, output_dir rq, prepare_input w rq} \<union> set_option (extra_fields rq)
         \<and> ''--pyproj-always-xy'' \<notin> {exe, output_dir rq, prepare_input w rq}
                                      \<union> set_option (extra_fields rq) \<longrightarrow>
          (''--srs_out'' \<in> set ?cmd
             \<longleftrightarrow> laspy_has_crs w (prepare_input w rq) \<and> truthy (srs_out rq))
          \<and> (''--pyproj-always-xy'' \<in> set ?cmd
             \<longleftrightarrow> laspy_has_crs w (prepare_input w rq) \<and> truthy (srs_out rq))"
    unfolding conversion_cmd_def
    using flags_absent_or_present
            [of exe "output_dir rq" "prepare_input w rq" "extra_fields rq"
                "laspy_has_crs w (prepare_input w rq)" "srs_out rq"]
    by blast
  show ?thesis
    using calls dep head flags mem by (intro exI [of _ ?cmd]) blast
qed

subsection \<open>A conversion of one LAS file, with engines that fail in different ways\<close>

definition world_ex :: world where
  "world_ex = \<lparr>out_dir = None, exe_beside_interpreter = Some ''/venv/bin/py3dtiles'',
               which_py3dtiles = None, las_fresh = (\<lambda>p. False),
               laspy_transcodes = (\<lambda>p. True), laspy_has_crs = (\<lambda>p. True),
               decode_output = (\<lambda>b. if b = ''garbled'' then None else Some b),
               engine_calls = []\<rparr>"

definition world_no_tool :: world where
  "world_no_tool = world_ex\<lparr>exe_beside_interpreter := None\<rparr>"

definition rq_ex :: request where
  "rq_ex = \<lparr>input_path = ''/data/cloud.las'', output_dir = ''/out'', extra_fields = None,
            srs_out = Some ''4978'', overwrite = False\<rparr>"

definition eng_fail :: engine where
  "eng_fail = (\<lambda>cmd d. ((1, ''boom''), d))"



definition dir_stat :: tiles_dir where
  "dir_stat = dir_a\<lparr>points_stat_error := True\<rparr>"

definition eng_stat :: engine where
  "eng_stat = (\<lambda>cmd d. ((0, ''ok''), dir_stat))"

lemma world_ex_resolves: "resolve_py3dtiles_executable world_ex = Inr ''/venv/bin/py3dtiles''"
  by (simp add: resolve_py3dtiles_executable_def world_ex_def)


lemma world_ex_decodes:
  "decode_output world_ex ''boom'' = Some ''boom''"
  "decode_output world_ex ''quiet'' = Some ''quiet''"
  "decode_output world_ex ''ok'' = Some ''ok''"
  "decode_output world_ex ''garbled'' = None"
  by (simp_all add: world_ex_def)


theorem tool_not_found_after_directory_setup_witness:
  "exe_beside_interpreter world_no_tool = None \<and> \<not> truthy (which_py3dtiles world_no_tool)
   \<and> convert_las_to_3dtiles eng_fail rq_ex world_no_tool
       = (Inl (RuntimeError ''py3dtiles not found in venv or PATH''),
          world_no_tool\<lparr>out_dir := Some empty_dir\<rparr>)"
proof -
  have h: "exe_beside_interpreter world_no_tool = None" "\<not> truthy (which_py3dtiles world_no_tool)"
    by (simp_all add: world_no_tool_def world_ex_def)
  have o: "overwrite rq_ex = False" "out_dir world_no_tool = None"
    by (simp_all add: rq_ex_def world_no_tool_def world_ex_def)
  show ?thesis
    using tool_not_found_after_directory_setup [OF h, of eng_fail rq_ex] h by (simp add: o)
qed

text \<open>
  Against claim C4 as stated: with no engine to be found, a missing output directory has
  been created when the conversion fails, and with \<^verbatim>\<open>overwrite\<close> an existing one has been
  removed and recreated empty.
\<close>

theorem tool_not_found_counterexample:
  "resolve_py3dtiles_executable world_no_tool
     = Inl (RuntimeError ''py3dtiles not found in venv or PATH'')
   \<and> out_dir world_no_tool = None
   \<and> convert_las_to_3dtiles eng_fail rq_ex world_no_tool
       = (Inl (RuntimeError ''py3dtiles not found in venv or PATH''),
          world_no_tool\<lparr>out_dir := Some empty_dir\<rparr>)
   \<and> convert_las_to_3dtiles eng_fail (rq_ex\<lparr>overwrite := True\<rparr>)
         (world_no_tool\<lparr>out_dir := Some dir_b\<rparr>)
       = (Inl (RuntimeError ''py3dtiles not found in venv or PATH''),
          world_no_tool\<lparr>out_dir := Some empty_dir\<rparr>)
   \<and> points dir_b \<noteq> points empty_dir"
  by (simp add: convert_las_to_3dtiles_def Let_def resolve_py3dtiles_executable_def
                world_no_tool_def world_ex_def rq_ex_def prepare_output_def
                dir_b_def empty_dir_def)

theorem conversion_command_has_transform_flags_iff_witness:
  "resolve_py3dtiles_executable world_ex = Inr ''/venv/bin/py3dtiles''
   \<and> (\<exists>cmd. engine_calls (snd (convert_las_to_3dtiles eng_fail rq_ex world_ex)) = [cmd]
          \<and> take 7 cmd = [''/venv/bin/py3dtiles'', ''convert'', ''--out'', ''/out'',
                           ''--srs_out'', ''4978'', ''--pyproj-always-xy''])
   \<and> (\<exists>cmd. engine_calls (snd (convert_las_to_3dtiles eng_fail rq_ex
                                   (world_ex\<lparr>laspy_has_crs := (\<lambda>p. False)\<rparr>))) = [cmd]
          \<and> take 4 cmd = [''/venv/bin/py3dtiles'', ''convert'', ''--out'', ''/out'']
          \<and> take 3 (drop 4 cmd) \<noteq> [''--srs_out'', ''4978'', ''--pyproj-always-xy''])"
proof -
  let ?w' = "world_ex\<lparr>laspy_has_crs := (\<lambda>p. False)\<rparr>"
  have r': "resolve_py3dtiles_executable ?w' = Inr ''/venv/bin/py3dtiles''"
    by (simp add: resolve_py3dtiles_executable_def world_ex_def)
  from conversion_command_has_transform_flags_iff
         [where eng = eng_fail and rq = rq_ex and w = world_ex, OF world_ex_resolves]
  obtain cmd where
    c: "engine_calls (snd (convert_las_to_3dtiles eng_fail rq_ex world_ex))
          = engine_calls world_ex @ [cmd]"
    and h: "take 4 cmd = [''/venv/bin/py3dtiles'', ''convert'', ''--out'', output_dir rq_ex]"
    and f: "\<forall>v. laspy_has_crs world_ex (prepare_input world_ex rq_ex)
                \<and> srs_out rq_ex = Some v \<and> v \<noteq> [] \<longrightarrow>
            take 3 (drop 4 cmd) = [''--srs_out'', v, ''--pyproj-always-xy'']"
    by blast
  have g: "laspy_has_crs world_ex (prepare_input world_ex rq_ex)
           \<and> srs_out rq_ex = Some ''4978'' \<and> ''4978'' \<noteq> []"
    by (simp add: world_ex_def rq_ex_def)
  have t: "take 3 (drop 4 cmd) = [''--srs_out'', ''4978'', ''--pyproj-always-xy'']"
    using f [rule_format, OF g] .
  have "take 7 cmd = take 4 cmd @ take 3 (drop 4 cmd)"
    by (simp add: take_add [of 4 3 cmd, simplified])
  then have t7: "take 7 cmd = [''/venv/bin/py3dtiles'', ''convert'', ''--out'', ''/out'',
                           ''--srs_out'', ''4978'', ''--pyproj-always-xy'']"
    using h t by (simp add: rq_ex_def)
  have c1: "engine_calls (snd (convert_las_to_3dtiles eng_fail rq_ex world_ex)) = [cmd]"
    using c by (simp add: world_ex_def)
  from conversion_command_has_transform_flags_iff
         [where eng = eng_fail and rq = rq_ex and w = ?w', OF r']
  obtain cmd' where
    c': "engine_calls (snd (convert_las_to_3dtiles eng_fail rq_ex ?w'))
          = engine_calls ?w' @ [cmd']"
    and h': "take 4 cmd' = [''/venv/bin/py3dtiles'', ''convert'', ''--out'', output_dir rq_ex]"
    and n': "laspy_has_crs ?w' (prepare_input ?w' rq_ex) \<and> truthy (srs_out rq_ex)
          \<longleftrightarrow> (\<exists>v. take 3 (drop 4 cmd') = [''--srs_out'', v, ''--pyproj-always-xy''])"
    by blast
  have "\<not> laspy_has_crs ?w' (prepare_input ?w' rq_ex)" by simp
  then have no: "take 3 (drop 4 cmd') \<noteq> [''--srs_out'', ''4978'', ''--pyproj-always-xy'']"
    using n' by blast
  have c2: "engine_calls (snd (convert_las_to_3dtiles eng_fail rq_ex ?w')) = [cmd']"
    using c' by (simp add: world_ex_def)
  have h2: "take 4 cmd' = [''/venv/bin/py3dtiles'', ''convert'', ''--out'', ''/out'']"
    using h' by (simp add: rq_ex_def)
  show ?thesis
    using world_ex_resolves c1 t7 c2 h2 no by blast
qed




theorem repair_failures_are_swallowed_witness:
  "resolve_py3dtiles_executable world_ex = Inr ''/venv/bin/py3dtiles''
   \<and> decode_output world_ex ''ok'' = Some ''ok''
   \<and> main_tileset dir_stat \<noteq> None
   \<and> normalize_sub_tileset_uris_in_points
        (snd (rewrite_child_tileset_uris_if_needed (dir_stat\<lparr>tiles_log := Some ''ok''\<rparr>)))
       = Inl OSError
   \<and> fst (convert_las_to_3dtiles eng_stat rq_ex world_ex) = Inr ''/out/tileset.json''"
proof -
  have e: "eng_stat (conversion_cmd ''/venv/bin/py3dtiles'' rq_ex world_ex)
             (prepare_output (overwrite rq_ex) (out_dir world_ex)) = ((0, ''ok''), dir_stat)"
    by (simp add: eng_stat_def)
  have m: "main_tileset dir_stat \<noteq> None"
    by (simp add: dir_stat_def dir_a_def)
  have st: "points_stat_error
              (snd (rewrite_child_tileset_uris_if_needed (dir_stat\<lparr>tiles_log := Some ''ok''\<rparr>)))"
    by (cases "fst (rewrite_child_tileset_uris_if_needed (dir_stat\<lparr>tiles_log := Some ''ok''\<rparr>))")
       (use pass_a_true [of "dir_stat\<lparr>tiles_log := Some ''ok''\<rparr>"]
            pass_a_false [of "dir_stat\<lparr>tiles_log := Some ''ok''\<rparr>"]
         in \<open>auto simp: dir_stat_def\<close>)
  have b: "normalize_sub_tileset_uris_in_points
             (snd (rewrite_child_tileset_uris_if_needed (dir_stat\<lparr>tiles_log := Some ''ok''\<rparr>)))
           = Inl OSError"
    using st by (simp add: normalize_sub_tileset_uris_in_points_def)
  have p: "path_join (output_dir rq_ex) ''tileset.json'' = ''/out/tileset.json''"
    by (simp add: path_join_def rq_ex_def endswith_def suffix_to_prefix)
  note r = repair_failures_are_swallowed
             [where eng = eng_stat and rq = rq_ex and w = world_ex,
              OF world_ex_resolves e world_ex_decodes(3) m]
  show ?thesis
    using r m b world_ex_resolves world_ex_decodes(3) by (simp add: p)
qed

section \<open>What Pass A's name test lets through\<close>

definition doc_c :: json where
  "doc_c = JObj [(''root'', JObj [(''content'', JObj [(''uri'', JStr ''tileset.json'')]),
                                  (''contents'', JArr [JObj [(''uri'', JStr ''tileset.abc.json'')]])])]"

definition doc_c_fixed :: json where
  "doc_c_fixed = JObj [(''root'', JObj [(''content'', JObj [(''uri'', JStr ''points/tileset.json'')]),
                         (''contents'', JArr [JObj [(''uri'', JStr ''points/tileset.abc.json'')]])])]"

definition dir_c :: tiles_dir where
  "dir_c = \<lparr>main_tileset = Some (File True True (Some doc_c)),
            points = Some [(''tileset.json'', File True True None),
                           (''tileset.abc.json'', File True True None)],
            deep_file = (\<lambda>p. False), points_stat_error = False, tiles_log = None\<rparr>"

lemma maybe_fix_uri_any_middle:
  assumes "CHR ''/'' \<notin> set s" and "isf (''tileset.'' @ s @ ''.json'')"
  shows "maybe_fix_uri isf (JObj [(''uri'', JStr (''tileset.'' @ s @ ''.json''))])
           = (JObj [(''uri'', JStr (''points/tileset.'' @ s @ ''.json''))], True)"
proof -
  have a: "startswith (''tileset.'' @ s @ ''.json'') ''tileset.''"
    by (simp add: startswith_def)
  have b: "endswith (''tileset.'' @ s @ ''.json'') ''.json''"
    unfolding endswith_def suffix_def by (rule exI [of _ "''tileset.'' @ s"]) simp
  have c: "CHR ''/'' \<notin> set (''tileset.'' @ s @ ''.json'')"
    using assms(1) by simp
  have u: "map_of [(''uri'', JStr (''tileset.'' @ s @ ''.json''))] ''uri''
             = Some (JStr (''tileset.'' @ s @ ''.json''))"
    by simp
  show ?thesis
    unfolding maybe_fix_uri_def json.case u option.case
    using a b c assms(2) by simp
qed

lemma maybe_fix_uri_plain:
  "maybe_fix_uri (\<lambda>p. True) (JObj [(''uri'', JStr ''tileset.json'')])
     = (JObj [(''uri'', JStr ''points/tileset.json'')], True)"
  by (simp add: maybe_fix_uri_def startswith_def endswith_def suffix_to_prefix)

lemma dir_c_files:
  "points_is_file dir_c ''tileset.json''" "points_is_file dir_c ''tileset.abc.json''"
  by (simp_all add: points_is_file_def dir_c_def)

lemma dir_c_fix:
  "maybe_fix_uri (points_is_file dir_c) (JObj [(''uri'', JStr ''tileset.json'')])
     = (JObj [(''uri'', JStr ''points/tileset.json'')], True)"
  "maybe_fix_uri (points_is_file dir_c) (JObj [(''uri'', JStr ''tileset.abc.json'')])
     = (JObj [(''uri'', JStr ''points/tileset.abc.json'')], True)"
  by (simp_all add: maybe_fix_uri_def startswith_def endswith_def suffix_to_prefix dir_c_files)

lemma dir_c_walk:
  "walk_root (maybe_fix_uri (points_is_file dir_c)) doc_c = Some (doc_c_fixed, True)"
  by (simp add: walk_root_def doc_c_def doc_c_fixed_def fix_content_def fix_contents_def
                each_dict_def dir_c_fix)

text \<open>
  Claim C10. Pass A's bare-name test looks at the prefix and the suffix only: whatever
  stands between \<^verbatim>\<open>tileset.\<close> and \<^verbatim>\<open>.json\<close>, integer or not, passes it as long as it has no
  path separator, and so does \<^verbatim>\<open>tileset.json\<close> itself, where the two overlap in the dot.
  A root manifest that refers to \<^verbatim>\<open>tileset.json\<close> and to \<^verbatim>\<open>tileset.abc.json\<close>, both present
  under \<^verbatim>\<open>points/\<close>, has both references rewritten to the prefixed form.
\<close>

theorem pass_a_test_is_prefix_suffix_only:
  "(\<forall>s isf. CHR ''/'' \<notin> set s \<and> isf (''tileset.'' @ s @ ''.json'') \<longrightarrow>
       maybe_fix_uri isf (JObj [(''uri'', JStr (''tileset.'' @ s @ ''.json''))])
         = (JObj [(''uri'', JStr (''points/tileset.'' @ s @ ''.json''))], True))
   \<and> maybe_fix_uri (\<lambda>p. True) (JObj [(''uri'', JStr ''tileset.json'')])
       = (JObj [(''uri'', JStr ''points/tileset.json'')], True)
   \<and> rewrite_child_tileset_uris_if_needed dir_c
       = (True, dir_c\<lparr>main_tileset := Some (File True True (Some doc_c_fixed))\<rparr>)"
proof -
  have run: "rewrite_child_tileset_uris_if_needed dir_c
       = (True, dir_c\<lparr>main_tileset := Some (File True True (Some doc_c_fixed))\<rparr>)"
  proof -
    have m: "main_tileset dir_c = Some (File True True (Some doc_c))"
      by (simp add: dir_c_def)
    show ?thesis
      by (simp add: rewrite_child_tileset_uris_if_needed_def m dir_c_walk)
  qed
  show ?thesis
    using maybe_fix_uri_any_middle maybe_fix_uri_plain run by blast
qed

theorem pass_a_test_is_prefix_suffix_only_witness:
  "maybe_fix_uri (\<lambda>p. True) (JObj [(''uri'', JStr ''tileset.abc.json'')])
     = (JObj [(''uri'', JStr ''points/tileset.abc.json'')], True)"
proof -
  have h: "CHR ''/'' \<notin> set ''abc'' \<and> (\<lambda>p. True) (''tileset.'' @ ''abc'' @ ''.json'')"
    by simp
  from pass_a_test_is_prefix_suffix_only
  have "\<forall>s isf. CHR ''/'' \<notin> set s \<and> isf (''tileset.'' @ s @ ''.json'') \<longrightarrow>
       maybe_fix_uri isf (JObj [(''uri'', JStr (''tileset.'' @ s @ ''.json''))])
         = (JObj [(''uri'', JStr (''points/tileset.'' @ s @ ''.json''))], True)"
    by (rule conjunct1)
  from this [rule_format, of "''abc''" "\<lambda>p. True", OF h] show ?thesis by simp
qed

end
